theory Spec2Isabelle
  imports Complex_Main "HOL-Library.Word" "HOL-Library.Multiset"
begin

section \<open>The tracker object debugger of the multi object tracker\<close>

text \<open>
  A shallow embedding of \<^verbatim>\<open>debug_object.cpp\<close>: the class
  \<^verbatim>\<open>TrackerObjectDebugger\<close> with its member functions \<^verbatim>\<open>reset\<close>,
  \<^verbatim>\<open>collect\<close>, \<^verbatim>\<open>process\<close>, \<^verbatim>\<open>draw\<close> and \<^verbatim>\<open>getMessage\<close>.

  Conventions of the model.
  \<^item> A \<^verbatim>\<open>double\<close> or \<^verbatim>\<open>float\<close> is the rational number it denotes. The products
    that become the percentages of the label are rounded to the floating-point format
    as IEEE 754 multiplication rounds them (\<open>fp_mul\<close> below); positions, scales and
    colours are carried as the values their literals name, with exact sums.
  \<^item> An \<^verbatim>\<open>rclcpp::Time\<close> is its count of nanoseconds.
  \<^item> A \<^verbatim>\<open>boost::uuids::uuid\<close> is a 128-bit word; its \<^verbatim>\<open>operator<\<close> compares the 16
    bytes lexicographically, which is the unsigned order of the word read big-endian.
  \<^item> \<^verbatim>\<open>std::vector::at\<close> throws \<^verbatim>\<open>std::out_of_range\<close>; the model returns
    \<open>Inl out_of_range\<close> and stops there, as the propagating exception does.
    \<^verbatim>\<open>operator[]\<close> beyond the size is undefined behaviour; the model returns
    \<open>Inl undefined_index\<close>.
\<close>

subsection \<open>Messages and configuration\<close>

type_synonym Time = int

type_synonym boost_uuid = "128 word"

record Point =
  point_x :: rat
  point_y :: rat
  point_z :: rat

record ColorRGBA =
  color_r :: rat
  color_g :: rat
  color_b :: rat
  color_a :: rat

datatype marker_type =
  ARROW | CUBE | SPHERE | CYLINDER | LINE_STRIP | LINE_LIST | CUBE_LIST | SPHERE_LIST
  | POINTS | TEXT_VIEW_FACING | MESH_RESOURCE | TRIANGLE_LIST

datatype marker_action = ADD | MODIFY | DELETE | DELETEALL

text \<open>The fields of \<^verbatim>\<open>visualization_msgs::msg::Marker\<close> that \<^verbatim>\<open>draw\<close> writes.\<close>

record Marker =
  marker_frame_id :: string
  marker_stamp :: Time
  marker_ns :: string
  marker_id :: "32 word"
  marker_type :: marker_type
  marker_action :: marker_action
  marker_pose_position :: Point
  marker_scale :: Point
  marker_color :: ColorRGBA
  marker_lifetime :: rat
  marker_points :: "Point list"
  marker_text :: string

text \<open>A default-constructed message: numbers are zero, sequences empty.\<close>

definition default_Marker :: Marker where
  "default_Marker =
     \<lparr>marker_frame_id = [], marker_stamp = 0, marker_ns = [], marker_id = 0,
      marker_type = ARROW, marker_action = ADD,
      marker_pose_position = \<lparr>point_x = 0, point_y = 0, point_z = 0\<rparr>,
      marker_scale = \<lparr>point_x = 0, point_y = 0, point_z = 0\<rparr>,
      marker_color = \<lparr>color_r = 0, color_g = 0, color_b = 0, color_a = 0\<rparr>,
      marker_lifetime = 0, marker_points = [], marker_text = []\<rparr>"

text \<open>\<^verbatim>\<open>types::InputChannel\<close>: only the short name is read here.\<close>

record InputChannel =
  short_name :: string

text \<open>\<^verbatim>\<open>types::DynamicObject\<close>: the message identity (16 bytes) and the position.\<close>

record DynamicObject =
  object_uuid :: "8 word list"
  pose_position :: Point

record DynamicObjectList =
  channel_index :: int
  objects :: "DynamicObject list"

text \<open>
  A \<^verbatim>\<open>Tracker\<close> is used through four member functions only; the record holds what
  they return.
\<close>

record Tracker =
  getTrackedObject :: "Time \<Rightarrow> DynamicObject"
  getUuidString :: string
  getExistenceProbabilityVector :: "rat list"
  getTotalExistenceProbability :: rat

record ObjectData =
  time :: Time
  uuid :: boost_uuid
  uuid_str :: string
  channel_id :: int
  tracker_point :: Point
  detection_point :: Point
  is_associated :: bool
  existence_vector :: "rat list"
  total_existence_probability :: rat

text \<open>The members of the class.\<close>

record TrackerObjectDebugger =
  frame_id :: string
  channels_config :: "InputChannel list"
  markers :: "Marker list"
  message_time :: Time
  is_initialized :: bool
  object_data_list :: "ObjectData list"
  object_data_groups :: "ObjectData list list"

datatype error = out_of_range | undefined_index

subsection \<open>The helpers of the anonymous namespace\<close>

definition hex_digit :: "nat \<Rightarrow> char" where
  "hex_digit n = ''0123456789abcdef'' ! (n mod 16)"

text \<open>Two lower-case hexadecimal digits for each of the 16 bytes.\<close>

definition uuidToString :: "8 word list \<Rightarrow> string" where
  "uuidToString bytes =
     concat (map (\<lambda>b. [hex_digit (unat b div 16), hex_digit (unat b mod 16)]) (take 16 bytes))"

text \<open>
  \<^verbatim>\<open>boost::uuids::string_generator\<close> and \<^verbatim>\<open>boost::uuids::hash_value\<close> belong to the
  Boost library; they are parameters \<open>gen\<close> and \<open>hash_value\<close> of the model.
\<close>

definition uuidToBoostUuid :: "(string \<Rightarrow> boost_uuid) \<Rightarrow> 8 word list \<Rightarrow> boost_uuid" where
  "uuidToBoostUuid gen uuid_msg = gen (uuidToString uuid_msg)"

text \<open>The \<^verbatim>\<open>size_t\<close> hash is narrowed to \<^verbatim>\<open>int32_t\<close>.\<close>

definition uuidToInt :: "(boost_uuid \<Rightarrow> 64 word) \<Rightarrow> boost_uuid \<Rightarrow> 32 word" where
  "uuidToInt hash_value u = ucast (hash_value u)"

subsection \<open>Constructor and reset\<close>

text \<open>
  Modelled from the spec: the initial value of \<^verbatim>\<open>is_initialized_\<close>, which the class
  declaration in \<^verbatim>\<open>debug_object.hpp\<close> gives. The spec says that initialization
  becomes true on the first \<^verbatim>\<open>collect\<close>, so it starts false. The containers are
  default-constructed, hence empty.
\<close>

definition TrackerObjectDebugger_new :: "string \<Rightarrow> InputChannel list \<Rightarrow> TrackerObjectDebugger" where
  "TrackerObjectDebugger_new fid channels =
     \<lparr>frame_id = fid, channels_config = channels, markers = [], message_time = 0,
      is_initialized = False, object_data_list = [], object_data_groups = []\<rparr>"

definition reset :: "TrackerObjectDebugger \<Rightarrow> TrackerObjectDebugger" where
  "reset st = st\<lparr>object_data_list := [], markers := []\<rparr>"

subsection \<open>collect\<close>

text \<open>\<^verbatim>\<open>std::vector::at\<close> with an \<^verbatim>\<open>int\<close> index: a negative index converts to a huge
  \<^verbatim>\<open>size_t\<close> and is out of range as well.\<close>

definition vector_at :: "'a list \<Rightarrow> int \<Rightarrow> error + 'a" where
  "vector_at xs i = (if 0 \<le> i \<and> nat i < length xs then Inr (xs ! nat i) else Inl out_of_range)"

text \<open>The body of the loop over the trackers: one record for the tracker at \<open>tracker_idx\<close>.\<close>

definition collect_object_data ::
  "(string \<Rightarrow> boost_uuid) \<Rightarrow> Time \<Rightarrow> Tracker \<Rightarrow> int \<Rightarrow> DynamicObjectList \<Rightarrow> (int \<rightharpoonup> int)
     \<Rightarrow> error + ObjectData" where
  "collect_object_data gen t tracker tracker_idx detected_objects direct_assignment =
     (let tracked_object = getTrackedObject tracker t;
          tp = \<lparr>point_x = point_x (pose_position tracked_object),
                point_y = point_y (pose_position tracked_object),
                point_z = point_z (pose_position tracked_object)\<rparr>;
          mk = (\<lambda>dp assoc.
                 \<lparr>time = t,
                  uuid = uuidToBoostUuid gen (object_uuid tracked_object),
                  uuid_str = getUuidString tracker,
                  channel_id = channel_index detected_objects,
                  tracker_point = tp,
                  detection_point = dp,
                  is_associated = assoc,
                  existence_vector = getExistenceProbabilityVector tracker,
                  total_existence_probability = getTotalExistenceProbability tracker\<rparr>)
      in case direct_assignment tracker_idx of
           Some j \<Rightarrow>
             (case vector_at (objects detected_objects) j of
                Inl e \<Rightarrow> Inl e
              | Inr associated_object \<Rightarrow>
                  Inr (mk \<lparr>point_x = point_x (pose_position associated_object),
                           point_y = point_y (pose_position associated_object),
                           point_z = point_z (pose_position associated_object)\<rparr> True))
         | None \<Rightarrow>
             Inr (mk \<lparr>point_x = point_x tp, point_y = point_y tp, point_z = point_z tp\<rparr> False))"

text \<open>The loop: the records are pushed to the back of the list in tracker order.\<close>

fun collect_loop ::
  "(string \<Rightarrow> boost_uuid) \<Rightarrow> Time \<Rightarrow> Tracker list \<Rightarrow> int \<Rightarrow> DynamicObjectList \<Rightarrow> (int \<rightharpoonup> int)
     \<Rightarrow> ObjectData list \<Rightarrow> error + ObjectData list" where
  "collect_loop gen t [] tracker_idx detected_objects direct_assignment acc = Inr acc"
| "collect_loop gen t (tracker # rest) tracker_idx detected_objects direct_assignment acc =
     (case collect_object_data gen t tracker tracker_idx detected_objects direct_assignment of
        Inl e \<Rightarrow> Inl e
      | Inr object_data \<Rightarrow>
          collect_loop gen t rest (tracker_idx + 1) detected_objects direct_assignment
            (acc @ [object_data]))"

definition collect ::
  "(string \<Rightarrow> boost_uuid) \<Rightarrow> Time \<Rightarrow> Tracker list \<Rightarrow> DynamicObjectList \<Rightarrow> (int \<rightharpoonup> int)
     \<Rightarrow> TrackerObjectDebugger \<Rightarrow> error + TrackerObjectDebugger" where
  "collect gen t list_tracker detected_objects direct_assignment st =
     (case collect_loop gen t list_tracker 0 detected_objects direct_assignment
             (object_data_list st) of
        Inl e \<Rightarrow> Inl e
      | Inr l \<Rightarrow> Inr (st\<lparr>is_initialized := True, message_time := t, object_data_list := l\<rparr>))"

subsection \<open>Floating-point arithmetic\<close>

text \<open>
  A binary format is given by the number of bits of its
  significand and the exponent of its least positive value: 24 and -149 for
  \<^verbatim>\<open>float\<close>, 53 and -1074 for \<^verbatim>\<open>double\<close>. The class declaration that gives the
  existence probabilities their type is in \<^verbatim>\<open>debug_object.hpp\<close>, so the format is a
  parameter \<open>fmt\<close> of \<open>draw\<close>.
\<close>

record fp_format =
  precision :: nat
  emin :: int

definition binary32 :: fp_format where
  "binary32 = \<lparr>precision = 24, emin = - 149\<rparr>"

definition binary64 :: fp_format where
  "binary64 = \<lparr>precision = 53, emin = - 1074\<rparr>"

text \<open>The number of binary digits of a positive integer.\<close>

function bit_length :: "int \<Rightarrow> int" where
  "bit_length n = (if n \<le> 0 then 0 else 1 + bit_length (n div 2))"
  by pat_completeness auto
termination
  by (relation "measure nat") auto

declare bit_length.simps [simp del]

definition pow2 :: "int \<Rightarrow> rat" where
  "pow2 k = (if 0 \<le> k then 2 ^ nat k else 1 / 2 ^ nat (- k))"

text \<open>For positive \<open>x\<close>, the exponent \<open>k\<close> with \<open>2 ^ k \<le> x < 2 ^ (k + 1)\<close>.\<close>

definition ilog2 :: "rat \<Rightarrow> int" where
  "ilog2 x =
     (if 1 \<le> x then bit_length \<lfloor>x\<rfloor> - 1
      else - bit_length (\<lceil>1 / x\<rceil> - 1))"

definition round_half_even :: "rat \<Rightarrow> int" where
  "round_half_even r =
     (let f = \<lfloor>r\<rfloor>; d = r - of_int f
      in if d < 1 / 2 then f else if 1 / 2 < d then f + 1 else if even f then f else f + 1)"

text \<open>
  Rounding to the nearest value of the format, ties to the even significand (the
  default rounding of IEEE 754); values below the normal range are rounded to a
  multiple of the least positive value. Overflow to infinity is not modelled.
\<close>

definition fp_round :: "fp_format \<Rightarrow> rat \<Rightarrow> rat" where
  "fp_round fmt x =
     (if x = 0 then 0
      else let e = max (ilog2 \<bar>x\<bar> - (int (precision fmt) - 1)) (emin fmt)
           in sgn x * of_int (round_half_even (\<bar>x\<bar> / pow2 e)) * pow2 e)"

text \<open>The product of two values of the format: the exact product, rounded.\<close>

definition fp_mul :: "fp_format \<Rightarrow> rat \<Rightarrow> rat \<Rightarrow> rat" where
  "fp_mul fmt x y = fp_round fmt (x * y)"

subsection \<open>process\<close>

text \<open>
  \<^verbatim>\<open>std::sort\<close> with the comparison \<^verbatim>\<open>a.uuid < b.uuid\<close>: the C++ standard promises a
  permutation of the input in which no later element compares less than an earlier
  one, and leaves the order of equivalent elements open. The model is this contract.
\<close>

definition std_sort :: "ObjectData list \<Rightarrow> ObjectData list \<Rightarrow> bool" where
  "std_sort xs ys \<longleftrightarrow> mset ys = mset xs \<and> sorted_wrt (\<lambda>a b. \<not> uuid b < uuid a) ys"

text \<open>
  The grouping loop: \<open>grp\<close> is \<^verbatim>\<open>object_data_group\<close>, \<open>acc\<close> is
  \<^verbatim>\<open>object_data_groups_\<close>; the last group is pushed after the loop.
\<close>

fun group_loop ::
  "ObjectData list \<Rightarrow> boost_uuid \<Rightarrow> ObjectData list \<Rightarrow> ObjectData list list
     \<Rightarrow> ObjectData list list" where
  "group_loop [] previous_uuid grp acc = acc @ [grp]"
| "group_loop (object_data # rest) previous_uuid grp acc =
     (if uuid object_data \<noteq> previous_uuid
      then group_loop rest (uuid object_data) [object_data] (acc @ [grp])
      else group_loop rest previous_uuid (grp @ [object_data]) acc)"

inductive process :: "TrackerObjectDebugger \<Rightarrow> TrackerObjectDebugger \<Rightarrow> bool" where
  not_initialized: "\<not> is_initialized st \<Longrightarrow> process st st"
| empty_list: "is_initialized st \<Longrightarrow> object_data_list st = [] \<Longrightarrow> process st st"
| grouped:
    "is_initialized st \<Longrightarrow> object_data_list st \<noteq> [] \<Longrightarrow> std_sort (object_data_list st) ys \<Longrightarrow>
     process st (st\<lparr>object_data_list := ys,
                    object_data_groups := group_loop ys (uuid (hd ys)) [] []\<rparr>)"

code_pred process .

subsection \<open>The GNU implementation of std::sort\<close>

text \<open>
  Which sorted permutation \<^verbatim>\<open>std::sort\<close> returns is fixed by the C++ library. To
  compute it on examples, the implementation of the GNU library (libstdc++,
  \<^verbatim>\<open>bits/stl_algo.h\<close>) is transcribed: an introsort that moves the median of three
  to the front and partitions around it, sorts the right part recursively and goes
  on with the left part, leaves ranges of at most 16 elements alone, and ends with
  an insertion sort of the whole range. An array is a list, an iterator an index;
  \<open>first\<close> and \<open>stop\<close> are the iterators \<^verbatim>\<open>__first\<close> and \<^verbatim>\<open>__last\<close>, \<open>lt\<close> is \<^verbatim>\<open>__comp\<close>.
  The two inner scans of the partition stop at the ends of the list, where the
  library relies on the pivot to stop them. The heap sort that takes over at depth
  limit 0 is not transcribed: the result is \<open>None\<close> there.
\<close>

definition iter_swap :: "'a list \<Rightarrow> nat \<Rightarrow> nat \<Rightarrow> 'a list" where
  "iter_swap a i j = a[i := a ! j, j := a ! i]"

definition move_median_to_first ::
  "('a \<Rightarrow> 'a \<Rightarrow> bool) \<Rightarrow> 'a list \<Rightarrow> nat \<Rightarrow> nat \<Rightarrow> nat \<Rightarrow> nat \<Rightarrow> 'a list" where
  "move_median_to_first lt a result x y z =
     (if lt (a ! x) (a ! y) then
        (if lt (a ! y) (a ! z) then iter_swap a result y
         else if lt (a ! x) (a ! z) then iter_swap a result z
         else iter_swap a result x)
      else if lt (a ! x) (a ! z) then iter_swap a result x
      else if lt (a ! y) (a ! z) then iter_swap a result z
      else iter_swap a result y)"

definition scan_up :: "('a \<Rightarrow> 'a \<Rightarrow> bool) \<Rightarrow> 'a list \<Rightarrow> nat \<Rightarrow> nat \<Rightarrow> nat" where
  "scan_up lt a pivot first =
     first + length (takeWhile (\<lambda>x. lt x (a ! pivot)) (drop first a))"

definition scan_down :: "('a \<Rightarrow> 'a \<Rightarrow> bool) \<Rightarrow> 'a list \<Rightarrow> nat \<Rightarrow> nat \<Rightarrow> nat" where
  "scan_down lt a pivot stop =
     (stop - 1) - length (takeWhile (\<lambda>x. lt (a ! pivot) x) (rev (take stop a)))"

function unguarded_partition ::
  "('a \<Rightarrow> 'a \<Rightarrow> bool) \<Rightarrow> 'a list \<Rightarrow> nat \<Rightarrow> nat \<Rightarrow> nat \<Rightarrow> 'a list \<times> nat" where
  "unguarded_partition lt a first stop pivot =
     (let first' = scan_up lt a pivot first;
          stop' = scan_down lt a pivot stop
      in if \<not> first' < stop' then (a, first')
         else unguarded_partition lt (iter_swap a first' stop') (first' + 1) stop' pivot)"
  by pat_completeness auto
termination
  by (relation "measure (\<lambda>(lt, a, first, stop, pivot). stop - first)")
     (auto simp: scan_up_def scan_down_def)

declare unguarded_partition.simps [simp del]

definition unguarded_partition_pivot ::
  "('a \<Rightarrow> 'a \<Rightarrow> bool) \<Rightarrow> 'a list \<Rightarrow> nat \<Rightarrow> nat \<Rightarrow> 'a list \<times> nat" where
  "unguarded_partition_pivot lt a first stop =
     (let mid = first + (stop - first) div 2
      in unguarded_partition lt
           (move_median_to_first lt a first (first + 1) mid (stop - 1)) (first + 1) stop first)"

fun introsort_loop ::
  "('a \<Rightarrow> 'a \<Rightarrow> bool) \<Rightarrow> nat \<Rightarrow> 'a list \<Rightarrow> nat \<Rightarrow> nat \<Rightarrow> 'a list option" where
  "introsort_loop lt 0 a first stop = (if 16 < stop - first then None else Some a)"
| "introsort_loop lt (Suc depth_limit) a first stop =
     (if 16 < stop - first then
        (case unguarded_partition_pivot lt a first stop of
           (a1, cut_it) \<Rightarrow>
             (case introsort_loop lt depth_limit a1 cut_it stop of
                None \<Rightarrow> None
              | Some a2 \<Rightarrow> introsort_loop lt depth_limit a2 first cut_it))
      else Some a)"

fun unguarded_linear_insert :: "('a \<Rightarrow> 'a \<Rightarrow> bool) \<Rightarrow> 'a \<Rightarrow> 'a list \<Rightarrow> nat \<Rightarrow> 'a list" where
  "unguarded_linear_insert lt val a 0 = a[0 := val]"
| "unguarded_linear_insert lt val a (Suc next) =
     (if lt val (a ! next) then unguarded_linear_insert lt val (a[Suc next := a ! next]) next
      else a[Suc next := val])"

definition insertion_sort :: "('a \<Rightarrow> 'a \<Rightarrow> bool) \<Rightarrow> 'a list \<Rightarrow> nat \<Rightarrow> nat \<Rightarrow> 'a list" where
  "insertion_sort lt a first stop =
     foldl (\<lambda>a i. if lt (a ! i) (a ! first)
                   then take first a @ [a ! i] @ take (i - first) (drop first a) @ drop (Suc i) a
                   else unguarded_linear_insert lt (a ! i) a i)
       a [first + 1..<stop]"

definition unguarded_insertion_sort ::
  "('a \<Rightarrow> 'a \<Rightarrow> bool) \<Rightarrow> 'a list \<Rightarrow> nat \<Rightarrow> nat \<Rightarrow> 'a list" where
  "unguarded_insertion_sort lt a first stop =
     foldl (\<lambda>a i. unguarded_linear_insert lt (a ! i) a i) a [first..<stop]"

definition final_insertion_sort ::
  "('a \<Rightarrow> 'a \<Rightarrow> bool) \<Rightarrow> 'a list \<Rightarrow> nat \<Rightarrow> nat \<Rightarrow> 'a list" where
  "final_insertion_sort lt a first stop =
     (if 16 < stop - first
      then unguarded_insertion_sort lt (insertion_sort lt a first (first + 16)) (first + 16) stop
      else insertion_sort lt a first stop)"

definition lg :: "nat \<Rightarrow> nat" where
  "lg n = nat (bit_length (int n) - 1)"

definition gnu_sort :: "('a \<Rightarrow> 'a \<Rightarrow> bool) \<Rightarrow> 'a list \<Rightarrow> 'a list option" where
  "gnu_sort lt a =
     (if a = [] then Some a
      else case introsort_loop lt (lg (length a) * 2) a 0 (length a) of
             None \<Rightarrow> None
           | Some a1 \<Rightarrow> Some (final_insertion_sort lt a1 0 (length a1)))"

text \<open>The comparison that \<open>process\<close> passes to \<^verbatim>\<open>std::sort\<close>.\<close>

definition uuid_less :: "ObjectData \<Rightarrow> ObjectData \<Rightarrow> bool" where
  "uuid_less a b \<longleftrightarrow> uuid a < uuid b"

subsection \<open>draw\<close>

text \<open>
  \<^verbatim>\<open>static_cast<int>\<close> of a floating-point value truncates toward zero to a 32-bit
  \<^verbatim>\<open>int\<close>. When the truncated value does not fit, the conversion is undefined
  behaviour; the model gives the least \<^verbatim>\<open>int\<close>, which is what the conversion
  instruction of x86-64 delivers. Percentages of probabilities between 0 and 1 always
  fit.
\<close>

definition static_cast_int :: "rat \<Rightarrow> int" where
  "static_cast_int r =
     (let t = (if 0 \<le> r then \<lfloor>r\<rfloor> else \<lceil>r\<rceil>)
      in if - (2 ^ 31) \<le> t \<and> t < 2 ^ 31 then t else - (2 ^ 31))"

fun decimal :: "nat \<Rightarrow> string" where
  "decimal n =
     (if n < 10 then [''0123456789'' ! n]
      else decimal (n div 10) @ [''0123456789'' ! (n mod 10)])"

declare decimal.simps [simp del]

text \<open>\<^verbatim>\<open>std::to_string\<close> of an \<^verbatim>\<open>int\<close>.\<close>

definition to_string :: "int \<Rightarrow> string" where
  "to_string n = (if n < 0 then CHR ''-'' # decimal (nat (- n)) else decimal (nat n))"

definition PALETTE_SIZE :: nat where
  "PALETTE_SIZE = 16"

definition color_array :: "(rat \<times> rat \<times> rat) list" where
  "color_array =
     [(0, 0, 1), (0, 1, 0), (1, 1, 0), (1, 0, 0),
      (0, 1, 1), (1, 0, 1), (1, 64 / 100, 0), (75 / 100, 1, 0),
      (0, 1 / 2, 1 / 2), (1 / 2, 0, 1 / 2), (1, 75 / 100, 8 / 10), (65 / 100, 17 / 100, 17 / 100),
      (1 / 2, 0, 0), (1 / 2, 1 / 2, 0), (0, 0, 1 / 2), (1 / 2, 1 / 2, 1 / 2)]"

text \<open>The reference marker of a group, from its front record.\<close>

definition reference_marker ::
  "(boost_uuid \<Rightarrow> 64 word) \<Rightarrow> TrackerObjectDebugger \<Rightarrow> ObjectData \<Rightarrow> Marker" where
  "reference_marker hash_value st object_data_front =
     default_Marker
       \<lparr>marker_frame_id := frame_id st,
        marker_stamp := time object_data_front,
        marker_id := uuidToInt hash_value (uuid object_data_front),
        marker_pose_position := \<lparr>point_x = 0, point_y = 0, point_z = 0\<rparr>,
        marker_color := \<lparr>color_r = 1, color_g = 1, color_b = 1, color_a = 1\<rparr>,
        marker_lifetime := 15 / 100\<rparr>"

text \<open>
  The loop over the channel indices that appends the per-channel probabilities;
  \<open>ev\<close> is the existence vector of the front record, read with \<^verbatim>\<open>operator[]\<close>.
  The product \<^verbatim>\<open>existence_vector[i] * 100\<close> is a floating-point product.
\<close>

fun channel_text_loop ::
  "fp_format \<Rightarrow> InputChannel list \<Rightarrow> rat list \<Rightarrow> nat list \<Rightarrow> string \<Rightarrow> error + string" where
  "channel_text_loop fmt channels ev [] txt = Inr txt"
| "channel_text_loop fmt channels ev (i # rest) txt =
     (if length ev \<le> i then Inl undefined_index
      else if ev ! i < 101 / 100000 then channel_text_loop fmt channels ev rest txt
      else channel_text_loop fmt channels ev rest
             (txt @ short_name (channels ! i)
                  @ to_string (static_cast_int (fp_mul fmt (ev ! i) 100)) @ '':''))"

definition pop_back :: "string \<Rightarrow> string" where
  "pop_back s = butlast s"

definition existence_probability_text ::
  "fp_format \<Rightarrow> InputChannel list \<Rightarrow> ObjectData \<Rightarrow> error + string" where
  "existence_probability_text fmt channels object_data_front =
     (let txt0 = [] @ ''total:'';
          txt1 = txt0
                   @ to_string (static_cast_int
                        (fp_mul fmt (total_existence_probability object_data_front) 100))
                   @ [CHR 0x0A]
      in case channel_text_loop fmt channels (existence_vector object_data_front)
                [0..<length channels] txt1 of
           Inl e \<Rightarrow> Inl e
         | Inr txt2 \<Rightarrow>
             Inr ((if txt2 \<noteq> [] then pop_back txt2 else txt2)
                  @ [CHR 0x0A] @ take 6 (uuid_str object_data_front)))"

definition channel_color :: "nat \<Rightarrow> ColorRGBA" where
  "channel_color idx =
     (case color_array ! (idx mod PALETTE_SIZE) of
        (r, g, b) \<Rightarrow> \<lparr>color_r = r, color_g = g, color_b = b, color_a = 9 / 10\<rparr>)"

definition detect_boxes_marker :: "Marker \<Rightarrow> InputChannel list \<Rightarrow> nat \<Rightarrow> Marker" where
  "detect_boxes_marker marker channels idx =
     marker\<lparr>marker_ns := ''detect_boxes_'' @ short_name (channels ! idx),
            marker_type := CUBE_LIST,
            marker_action := ADD,
            marker_scale := \<lparr>point_x = 2 / 10, point_y = 2 / 10, point_z = 2 / 10\<rparr>,
            marker_color := channel_color idx\<rparr>"

definition association_lines_marker :: "Marker \<Rightarrow> InputChannel list \<Rightarrow> nat \<Rightarrow> Marker" where
  "association_lines_marker marker channels idx =
     marker\<lparr>marker_ns := ''association_lines_'' @ short_name (channels ! idx),
            marker_type := LINE_LIST,
            marker_action := ADD,
            marker_scale := (marker_scale marker)\<lparr>point_x := 15 / 100\<rparr>,
            marker_points := [],
            marker_color := channel_color idx\<rparr>"

text \<open>The markers that the loop over the records of a group fills.\<close>

record group_markers =
  marker_track_boxes :: Marker
  marker_detect_boxes_per_channel :: "Marker list"
  marker_detect_lines_per_channel :: "Marker list"
  group_is_associated :: bool

definition push_point :: "Point \<Rightarrow> Marker \<Rightarrow> Marker" where
  "push_point p m = m\<lparr>marker_points := marker_points m @ [p]\<rparr>"

text \<open>
  One iteration for a record: the track box always; for an associated record the
  flag, then the detection box and the two line points of its channel, each found
  with \<^verbatim>\<open>at(channel_id)\<close>.
\<close>

definition draw_object_data :: "ObjectData \<Rightarrow> group_markers \<Rightarrow> error + group_markers" where
  "draw_object_data object_data gm =
     (let tp = tracker_point object_data;
          dp = detection_point object_data;
          track_pt = \<lparr>point_x = point_x tp, point_y = point_y tp, point_z = point_z tp + 1\<rparr>;
          detect_pt = \<lparr>point_x = point_x dp, point_y = point_y dp, point_z = point_z dp + 1 + 6 / 10\<rparr>;
          gm1 = gm\<lparr>marker_track_boxes := push_point track_pt (marker_track_boxes gm)\<rparr>
      in if \<not> is_associated object_data then Inr gm1
         else
           (let gm2 = gm1\<lparr>group_is_associated := True\<rparr>
            in case vector_at (marker_detect_boxes_per_channel gm2) (channel_id object_data) of
                 Inl e \<Rightarrow> Inl e
               | Inr marker_detect_boxes \<Rightarrow>
                   (let gm3 = gm2\<lparr>marker_detect_boxes_per_channel :=
                                    (marker_detect_boxes_per_channel gm2)
                                      [nat (channel_id object_data) :=
                                         push_point detect_pt marker_detect_boxes]\<rparr>
                    in case vector_at (marker_detect_lines_per_channel gm3) (channel_id object_data) of
                         Inl e \<Rightarrow> Inl e
                       | Inr marker_lines \<Rightarrow>
                           Inr (gm3\<lparr>marker_detect_lines_per_channel :=
                                      (marker_detect_lines_per_channel gm3)
                                        [nat (channel_id object_data) :=
                                           push_point detect_pt (push_point track_pt marker_lines)]\<rparr>))))"

fun draw_group_loop :: "ObjectData list \<Rightarrow> group_markers \<Rightarrow> error + group_markers" where
  "draw_group_loop [] gm = Inr gm"
| "draw_group_loop (object_data # rest) gm =
     (case draw_object_data object_data gm of
        Inl e \<Rightarrow> Inl e
      | Inr gm' \<Rightarrow> draw_group_loop rest gm')"

text \<open>
  The two passes that add the per-channel markers to the array: a marker without
  points gets the action \<^verbatim>\<open>DELETE\<close> and is pushed like the others.
\<close>

fun add_markers_loop :: "Marker list \<Rightarrow> nat list \<Rightarrow> Marker list \<Rightarrow> error + Marker list" where
  "add_markers_loop per_channel [] marker_array = Inr marker_array"
| "add_markers_loop per_channel (i # rest) marker_array =
     (case vector_at per_channel (int i) of
        Inl e \<Rightarrow> Inl e
      | Inr m \<Rightarrow>
          add_markers_loop per_channel rest
            (marker_array @ [if marker_points m = [] then m\<lparr>marker_action := DELETE\<rparr> else m]))"

text \<open>The body of the loop over the groups, for a non-empty group.\<close>

definition draw_group ::
  "(boost_uuid \<Rightarrow> 64 word) \<Rightarrow> fp_format \<Rightarrow> TrackerObjectDebugger \<Rightarrow> ObjectData list \<Rightarrow> Marker list
     \<Rightarrow> error + Marker list" where
  "draw_group hash_value fmt st object_data_group marker_array =
     (let object_data_front = hd object_data_group;
          channels = channels_config st;
          marker = reference_marker hash_value st object_data_front;
          text_marker0 =
            marker\<lparr>marker_ns := ''existence_probability'',
                   marker_type := TEXT_VIEW_FACING,
                   marker_action := ADD,
                   marker_scale := (marker_scale marker)\<lparr>point_z := 1 / 2\<rparr>,
                   marker_pose_position :=
                     \<lparr>point_x = point_x (tracker_point object_data_front),
                      point_y = point_y (tracker_point object_data_front),
                      point_z = point_z (tracker_point object_data_front) + 25 / 10\<rparr>\<rparr>
      in case existence_probability_text fmt channels object_data_front of
           Inl e \<Rightarrow> Inl e
         | Inr txt \<Rightarrow>
             (let text_marker = text_marker0\<lparr>marker_text := txt\<rparr>;
                  track_boxes0 =
                    marker\<lparr>marker_ns := ''track_boxes'',
                           marker_type := CUBE_LIST,
                           marker_action := ADD,
                           marker_scale := \<lparr>point_x = 4 / 10, point_y = 4 / 10, point_z = 4 / 10\<rparr>,
                           marker_color :=
                             \<lparr>color_r = 1, color_g = 1, color_b = 1, color_a = 9 / 10\<rparr>\<rparr>;
                  gm0 = \<lparr>marker_track_boxes = track_boxes0,
                         marker_detect_boxes_per_channel =
                           map (detect_boxes_marker marker channels) [0..<length channels],
                         marker_detect_lines_per_channel =
                           map (association_lines_marker marker channels) [0..<length channels],
                         group_is_associated = False\<rparr>
              in case draw_group_loop object_data_group gm0 of
                   Inl e \<Rightarrow> Inl e
                 | Inr gm \<Rightarrow>
                     (case add_markers_loop (marker_detect_boxes_per_channel gm)
                             [0..<length channels] marker_array of
                        Inl e \<Rightarrow> Inl e
                      | Inr marker_array1 \<Rightarrow>
                          (case add_markers_loop (marker_detect_lines_per_channel gm)
                                  [0..<length channels] marker_array1 of
                             Inl e \<Rightarrow> Inl e
                           | Inr marker_array2 \<Rightarrow>
                               (if \<not> group_is_associated gm
                                then Inr (marker_array2 @
                                       [text_marker\<lparr>marker_color :=
                                          \<lparr>color_r = 1 / 2, color_g = 1 / 2, color_b = 1 / 2,
                                           color_a = 9 / 10\<rparr>\<rparr>,
                                        (marker_track_boxes gm)\<lparr>marker_color :=
                                          \<lparr>color_r = 1 / 2, color_g = 1 / 2, color_b = 1 / 2,
                                           color_a = 8 / 10\<rparr>\<rparr>])
                                else Inr (marker_array2 @ [text_marker, marker_track_boxes gm]))))))"

fun draw_groups ::
  "(boost_uuid \<Rightarrow> 64 word) \<Rightarrow> fp_format \<Rightarrow> TrackerObjectDebugger \<Rightarrow> ObjectData list list \<Rightarrow> Marker list
     \<Rightarrow> error + Marker list" where
  "draw_groups hash_value fmt st [] marker_array = Inr marker_array"
| "draw_groups hash_value fmt st (object_data_group # rest) marker_array =
     (if object_data_group = [] then draw_groups hash_value fmt st rest marker_array
      else case draw_group hash_value fmt st object_data_group marker_array of
             Inl e \<Rightarrow> Inl e
           | Inr marker_array' \<Rightarrow> draw_groups hash_value fmt st rest marker_array')"

text \<open>\<^verbatim>\<open>draw\<close> clears the array it is given, then visits the groups.\<close>

definition draw ::
  "(boost_uuid \<Rightarrow> 64 word) \<Rightarrow> fp_format \<Rightarrow> TrackerObjectDebugger \<Rightarrow> ObjectData list list \<Rightarrow> Marker list
     \<Rightarrow> error + Marker list" where
  "draw hash_value fmt st groups marker_array = draw_groups hash_value fmt st groups []"

subsection \<open>getMessage\<close>


subsection \<open>The states of a debugger\<close>

text \<open>The states that the member functions can lead to from a newly constructed debugger.\<close>

inductive reachable :: "(string \<Rightarrow> boost_uuid) \<Rightarrow> TrackerObjectDebugger \<Rightarrow> bool"
  for gen :: "string \<Rightarrow> boost_uuid" where
  constructed: "reachable gen (TrackerObjectDebugger_new fid channels)"
| collected:
    "reachable gen st \<Longrightarrow>
     collect gen t list_tracker detected_objects direct_assignment st = Inr st' \<Longrightarrow>
     reachable gen st'"
| processed: "reachable gen st \<Longrightarrow> process st st' \<Longrightarrow> reachable gen st'"
| was_reset: "reachable gen st \<Longrightarrow> reachable gen (reset st)"

subsection \<open>Notions used in the statements\<close>

text \<open>The identity of a group is the identity of its front record.\<close>

definition group_key :: "ObjectData list \<Rightarrow> boost_uuid" where
  "group_key g = uuid (hd g)"

text \<open>The records of one identity, in the order of the list.\<close>

definition records_of :: "boost_uuid \<Rightarrow> ObjectData list \<Rightarrow> ObjectData list" where
  "records_of u xs = filter (\<lambda>r. uuid r = u) xs"

text \<open>A marker without its points: what the loop over the records leaves unchanged.\<close>

definition strip_points :: "Marker \<Rightarrow> Marker" where
  "strip_points m = m\<lparr>marker_points := []\<rparr>"

text \<open>What the adding passes push for a per-channel marker.\<close>

definition flag_empty :: "Marker \<Rightarrow> Marker" where
  "flag_empty m = (if marker_points m = [] then m\<lparr>marker_action := DELETE\<rparr> else m)"

text \<open>What one iteration of the channel loop appends to the label text.\<close>

definition channel_part ::
  "fp_format \<Rightarrow> InputChannel list \<Rightarrow> rat list \<Rightarrow> nat \<Rightarrow> string" where
  "channel_part fmt channels ev i =
     (if ev ! i < 101 / 100000 then []
      else short_name (channels ! i) @ to_string (static_cast_int (fp_mul fmt (ev ! i) 100)) @ '':'')"

text \<open>
  Names for three parts of the body of \<open>draw_group\<close>: the label marker with its text, the
  markers before the loop over the records, and the two markers pushed last.
\<close>

definition text_marker_of ::
  "(boost_uuid \<Rightarrow> 64 word) \<Rightarrow> TrackerObjectDebugger \<Rightarrow> ObjectData \<Rightarrow> string \<Rightarrow> Marker" where
  "text_marker_of hash_value st front s =
     (reference_marker hash_value st front)
       \<lparr>marker_ns := ''existence_probability'',
        marker_type := TEXT_VIEW_FACING,
        marker_action := ADD,
        marker_scale := (marker_scale (reference_marker hash_value st front))\<lparr>point_z := 1 / 2\<rparr>,
        marker_pose_position :=
          \<lparr>point_x = point_x (tracker_point front),
           point_y = point_y (tracker_point front),
           point_z = point_z (tracker_point front) + 25 / 10\<rparr>,
        marker_text := s\<rparr>"

definition group_markers_init ::
  "(boost_uuid \<Rightarrow> 64 word) \<Rightarrow> TrackerObjectDebugger \<Rightarrow> ObjectData \<Rightarrow> group_markers" where
  "group_markers_init hash_value st front =
     \<lparr>marker_track_boxes =
        (reference_marker hash_value st front)
          \<lparr>marker_ns := ''track_boxes'',
           marker_type := CUBE_LIST,
           marker_action := ADD,
           marker_scale := \<lparr>point_x = 4 / 10, point_y = 4 / 10, point_z = 4 / 10\<rparr>,
           marker_color := \<lparr>color_r = 1, color_g = 1, color_b = 1, color_a = 9 / 10\<rparr>\<rparr>,
      marker_detect_boxes_per_channel =
        map (detect_boxes_marker (reference_marker hash_value st front) (channels_config st))
          [0..<length (channels_config st)],
      marker_detect_lines_per_channel =
        map (association_lines_marker (reference_marker hash_value st front) (channels_config st))
          [0..<length (channels_config st)],
      group_is_associated = False\<rparr>"

definition finish_group :: "group_markers \<Rightarrow> Marker \<Rightarrow> Marker list" where
  "finish_group gm text_marker =
     (if \<not> group_is_associated gm
      then [text_marker\<lparr>marker_color :=
              \<lparr>color_r = 1 / 2, color_g = 1 / 2, color_b = 1 / 2, color_a = 9 / 10\<rparr>\<rparr>,
            (marker_track_boxes gm)\<lparr>marker_color :=
              \<lparr>color_r = 1 / 2, color_g = 1 / 2, color_b = 1 / 2, color_a = 8 / 10\<rparr>\<rparr>]
      else [text_marker, marker_track_boxes gm])"

text \<open>The precondition of \<open>draw\<close> that claim C10 names.\<close>

definition draw_precondition :: "InputChannel list \<Rightarrow> ObjectData list list \<Rightarrow> bool" where
  "draw_precondition channels groups \<longleftrightarrow>
     (\<forall>g \<in> set groups. \<forall>od \<in> set g.
        0 \<le> channel_id od \<and> channel_id od < int (length channels)
        \<and> length channels \<le> length (existence_vector od))"

text \<open>A call returns when it ends without an error.\<close>

definition returns :: "error + 'a \<Rightarrow> bool" where
  "returns r = (case r of Inl e \<Rightarrow> False | Inr v \<Rightarrow> True)"

text \<open>
  The label text in the words of the specification (claim C2): percentages rounded
  to the nearest integer, the channel entries joined, the trailing separator of the
  entries removed. It is compared with the text that \<open>draw\<close> builds.
\<close>

definition claimed_label_text :: "InputChannel list \<Rightarrow> ObjectData \<Rightarrow> string" where
  "claimed_label_text channels od =
     ''total:'' @ to_string (round (total_existence_probability od * 100)) @ [CHR 0x0A]
     @ butlast (concat (map (\<lambda>i. short_name (channels ! i)
                                 @ to_string (round (existence_vector od ! i * 100)) @ '':'')
                 (filter (\<lambda>i. 101 / 100000 \<le> existence_vector od ! i) [0..<length channels])))
     @ [CHR 0x0A] @ take 6 (uuid_str od)"

subsection \<open>Example inputs\<close>

text \<open>A generator that reads hexadecimal digits, as Boost's does for 32 of them.\<close>

definition hex_value :: "char \<Rightarrow> nat" where
  "hex_value c = length (takeWhile (\<lambda>d. d \<noteq> c) ''0123456789abcdef'')"

definition ex_gen :: "string \<Rightarrow> boost_uuid" where
  "ex_gen s = foldl (\<lambda>w c. push_bit 4 w + of_nat (hex_value c)) 0 s"

definition ex_hash :: "boost_uuid \<Rightarrow> 64 word" where
  "ex_hash u = ucast u"

definition ex_channels :: "InputChannel list" where
  "ex_channels = [\<lparr>short_name = ''L''\<rparr>, \<lparr>short_name = ''R''\<rparr>]"

definition ex_tracker :: "8 word \<Rightarrow> rat \<Rightarrow> Tracker" where
  "ex_tracker b p =
     \<lparr>getTrackedObject =
        (\<lambda>t. \<lparr>object_uuid = replicate 16 b,
               pose_position = \<lparr>point_x = 1, point_y = 2, point_z = 3\<rparr>\<rparr>),
      getUuidString = uuidToString (replicate 16 b),
      getExistenceProbabilityVector = [p, 1 / 1024],
      getTotalExistenceProbability = 255 / 256\<rparr>"

definition ex_detections :: "int \<Rightarrow> DynamicObjectList" where
  "ex_detections ch =
     \<lparr>channel_index = ch,
      objects = [\<lparr>object_uuid = replicate 16 0,
                  pose_position = \<lparr>point_x = 4, point_y = 5, point_z = 6\<rparr>\<rparr>]\<rparr>"

definition ex_debugger :: TrackerObjectDebugger where
  "ex_debugger = TrackerObjectDebugger_new ''map'' ex_channels"

definition ex_record :: "8 word \<Rightarrow> int \<Rightarrow> bool \<Rightarrow> ObjectData" where
  "ex_record b ch assoc =
     \<lparr>time = 10,
      uuid = uuidToBoostUuid ex_gen (replicate 16 b),
      uuid_str = uuidToString (replicate 16 b),
      channel_id = ch,
      tracker_point = \<lparr>point_x = 1, point_y = 2, point_z = 3\<rparr>,
      detection_point =
        (if assoc then \<lparr>point_x = 4, point_y = 5, point_z = 6\<rparr>
         else \<lparr>point_x = 1, point_y = 2, point_z = 3\<rparr>),
      is_associated = assoc,
      existence_vector = [1 / 2, 1 / 1024],
      total_existence_probability = 255 / 256\<rparr>"

definition ex_trackers :: "Tracker list" where
  "ex_trackers = [ex_tracker 7 (1 / 2), ex_tracker 3 (1 / 2)]"

definition ex_collected :: "ObjectData list \<Rightarrow> TrackerObjectDebugger" where
  "ex_collected l = ex_debugger\<lparr>is_initialized := True, message_time := 10, object_data_list := l\<rparr>"

definition ex_A :: "ObjectData list" where
  "ex_A = [ex_record 7 0 True, ex_record 3 0 False]"

definition ex_AB :: "ObjectData list" where
  "ex_AB = [ex_record 7 0 True, ex_record 3 0 False, ex_record 7 1 False, ex_record 3 1 False]"

definition ex_B :: "ObjectData list" where
  "ex_B = [ex_record 7 1 False, ex_record 3 1 False]"

definition ex_BA :: "ObjectData list" where
  "ex_BA = [ex_record 7 1 False, ex_record 3 1 False, ex_record 7 0 True, ex_record 3 0 False]"

definition ex_sorted :: "ObjectData list" where
  "ex_sorted = [ex_record 3 0 False, ex_record 3 1 False, ex_record 7 0 True, ex_record 7 1 False]"

definition ex_BA_sorted :: "ObjectData list" where
  "ex_BA_sorted = [ex_record 3 1 False, ex_record 3 0 False, ex_record 7 1 False, ex_record 7 0 True]"

text \<open>Nine trackers, collected for channel 0 and then for channel 1: 18 records.\<close>

definition ex_bytes9 :: "8 word list" where
  "ex_bytes9 = [9, 8, 7, 6, 5, 4, 3, 2, 1]"

definition ex_trackers9 :: "Tracker list" where
  "ex_trackers9 = map (\<lambda>b. ex_tracker b (1 / 2)) ex_bytes9"

definition ex_many0 :: "ObjectData list" where
  "ex_many0 = map (\<lambda>b. ex_record b 0 False) ex_bytes9"

definition ex_many :: "ObjectData list" where
  "ex_many = ex_many0 @ map (\<lambda>b. ex_record b 1 False) ex_bytes9"

definition ex_many_sorted :: "ObjectData list" where
  "ex_many_sorted =
     [ex_record 1 1 False, ex_record 1 0 False, ex_record 2 0 False, ex_record 2 1 False,
      ex_record 3 0 False, ex_record 3 1 False, ex_record 4 0 False, ex_record 4 1 False,
      ex_record 5 0 False, ex_record 5 1 False, ex_record 6 0 False, ex_record 6 1 False,
      ex_record 7 0 False, ex_record 7 1 False, ex_record 8 0 False, ex_record 8 1 False,
      ex_record 9 1 False, ex_record 9 0 False]"

definition ex_processed :: "ObjectData list \<Rightarrow> ObjectData list \<Rightarrow> TrackerObjectDebugger" where
  "ex_processed xs ys =
     (ex_collected xs)\<lparr>object_data_list := ys,
                       object_data_groups := group_loop ys (uuid (hd ys)) [] []\<rparr>"

definition ex_faint :: ObjectData where
  "ex_faint = (ex_record 7 0 False)\<lparr>existence_vector := [1 / 2048, 1 / 1024],
                                     total_existence_probability := 1 / 2\<rparr>"


definition ex_group_associated :: "ObjectData list" where
  "ex_group_associated = [ex_record 7 0 True, ex_record 7 1 False]"

definition ex_group_unassociated :: "ObjectData list" where
  "ex_group_unassociated = [ex_record 3 0 False, ex_record 3 1 False]"

section \<open>Properties of collect\<close>

lemma collect_object_data_unassigned:
  "direct_assignment tracker_idx = None \<Longrightarrow>
   \<exists>od. collect_object_data gen t tracker tracker_idx detected_objects direct_assignment = Inr od
      \<and> \<not> is_associated od \<and> detection_point od = tracker_point od"
  by (simp add: collect_object_data_def Let_def)

lemma collect_loop_empty_map:
  "\<exists>new. collect_loop gen t list_tracker tracker_idx detected_objects Map.empty acc = Inr (acc @ new)
     \<and> length new = length list_tracker
     \<and> (\<forall>od \<in> set new. \<not> is_associated od \<and> detection_point od = tracker_point od)"
proof (induction list_tracker arbitrary: tracker_idx acc)
  case Nil
  then show ?case by simp
next
  case (Cons tracker rest)
  obtain od where od:
    "collect_object_data gen t tracker tracker_idx detected_objects Map.empty = Inr od"
    "\<not> is_associated od" "detection_point od = tracker_point od"
    using collect_object_data_unassigned [of Map.empty tracker_idx gen t tracker detected_objects]
    by auto
  obtain new where new:
    "collect_loop gen t rest (tracker_idx + 1) detected_objects Map.empty (acc @ [od])
       = Inr ((acc @ [od]) @ new)"
    "length new = length rest"
    "\<forall>od \<in> set new. \<not> is_associated od \<and> detection_point od = tracker_point od"
    using Cons.IH [of "tracker_idx + 1" "acc @ [od]"] by blast
  show ?case
    apply (rule exI [of _ "od # new"])
    using od new by simp
qed

text \<open>
  Claim C6. For a non-empty tracker list and an empty association map, \<open>collect\<close>
  succeeds and appends one record for each tracker; every appended record is
  unassociated and its detection position is its tracker position.
\<close>

theorem collect_without_association:
  assumes "list_tracker \<noteq> []"
  shows "\<exists>st' new. collect gen t list_tracker detected_objects Map.empty st = Inr st'
           \<and> object_data_list st' = object_data_list st @ new
           \<and> length new = length list_tracker
           \<and> (\<forall>od \<in> set new. \<not> is_associated od \<and> detection_point od = tracker_point od)"
proof -
  obtain new where new:
    "collect_loop gen t list_tracker 0 detected_objects Map.empty (object_data_list st)
       = Inr (object_data_list st @ new)"
    "length new = length list_tracker"
    "\<forall>od \<in> set new. \<not> is_associated od \<and> detection_point od = tracker_point od"
    using collect_loop_empty_map by blast
  then show ?thesis
    by (simp add: collect_def)
qed

theorem collect_without_association_witness:
  "[ex_tracker 7 (1 / 2), ex_tracker 3 (1 / 2)] \<noteq> [] \<and>
   (\<exists>st' new. collect ex_gen 10 [ex_tracker 7 (1 / 2), ex_tracker 3 (1 / 2)] (ex_detections 0)
                 Map.empty ex_debugger = Inr st'
      \<and> object_data_list st' = object_data_list ex_debugger @ new
      \<and> length new = length [ex_tracker 7 (1 / 2), ex_tracker 3 (1 / 2)]
      \<and> (\<forall>od \<in> set new. \<not> is_associated od \<and> detection_point od = tracker_point od))"
  using collect_without_association
          [of "[ex_tracker 7 (1 / 2), ex_tracker 3 (1 / 2)]" ex_gen 10 "ex_detections 0" ex_debugger]
  by simp

section \<open>Properties of process\<close>

lemma concat_group_loop:
  "concat (group_loop xs prev grp acc) = concat acc @ grp @ xs"
  by (induction xs arbitrary: prev grp acc) simp_all

lemma group_loop_nonempty:
  "grp \<noteq> [] \<Longrightarrow> \<forall>g \<in> set acc. g \<noteq> [] \<Longrightarrow> \<forall>g \<in> set (group_loop xs prev grp acc). g \<noteq> []"
proof (induction xs arbitrary: prev grp acc)
  case Nil
  then show ?case by simp
next
  case (Cons od rest)
  show ?case
  proof (cases "uuid od = prev")
    case True
    have "grp @ [od] \<noteq> []" by simp
    then have "\<forall>g \<in> set (group_loop rest prev (grp @ [od]) acc). g \<noteq> []"
      using Cons.prems(2) by (rule Cons.IH)
    with True show ?thesis by simp
  next
    case False
    have "[od] \<noteq> []" by simp
    moreover have "\<forall>g \<in> set (acc @ [grp]). g \<noteq> []"
      using Cons.prems by simp
    ultimately have "\<forall>g \<in> set (group_loop rest (uuid od) [od] (acc @ [grp])). g \<noteq> []"
      by (rule Cons.IH)
    with False show ?thesis by simp
  qed
qed

lemma group_loop_uniform:
  "grp \<noteq> [] \<Longrightarrow> \<forall>r \<in> set grp. uuid r = prev \<Longrightarrow>
   \<forall>g \<in> set acc. \<forall>r \<in> set g. uuid r = group_key g \<Longrightarrow>
   \<forall>g \<in> set (group_loop xs prev grp acc). \<forall>r \<in> set g. uuid r = group_key g"
proof (induction xs arbitrary: prev grp acc)
  case Nil
  then show ?case by (cases grp) (simp_all add: group_key_def)
next
  case (Cons od rest)
  show ?case
  proof (cases "uuid od = prev")
    case True
    have "grp @ [od] \<noteq> []" by simp
    moreover have "\<forall>r \<in> set (grp @ [od]). uuid r = prev"
      using Cons.prems(2) True by simp
    ultimately
    have "\<forall>g \<in> set (group_loop rest prev (grp @ [od]) acc). \<forall>r \<in> set g. uuid r = group_key g"
      using Cons.prems(3) by (rule Cons.IH)
    with True show ?thesis by simp
  next
    case False
    have "\<forall>r \<in> set grp. uuid r = group_key grp"
      using Cons.prems(1,2) by (cases grp) (simp_all add: group_key_def)
    then have acc': "\<forall>g \<in> set (acc @ [grp]). \<forall>r \<in> set g. uuid r = group_key g"
      using Cons.prems(3) by simp
    have "[od] \<noteq> []" "\<forall>r \<in> set [od]. uuid r = uuid od" by simp_all
    then have "\<forall>g \<in> set (group_loop rest (uuid od) [od] (acc @ [grp])).
                 \<forall>r \<in> set g. uuid r = group_key g"
      using acc' by (rule Cons.IH)
    with False show ?thesis by simp
  qed
qed

lemma group_loop_keys:
  "grp \<noteq> [] \<Longrightarrow> \<forall>r \<in> set grp. uuid r = prev \<Longrightarrow>
   map group_key (group_loop xs prev grp acc)
     = map group_key acc @ remdups_adj (prev # map uuid xs)"
proof (induction xs arbitrary: prev grp acc)
  case Nil
  then show ?case by (cases grp) (simp_all add: group_key_def)
next
  case (Cons od rest)
  show ?case
  proof (cases "uuid od = prev")
    case True
    have "grp @ [od] \<noteq> []" by simp
    moreover have "\<forall>r \<in> set (grp @ [od]). uuid r = prev"
      using Cons.prems(2) True by simp
    ultimately
    have "map group_key (group_loop rest prev (grp @ [od]) acc)
            = map group_key acc @ remdups_adj (prev # map uuid rest)"
      by (rule Cons.IH)
    with True show ?thesis by simp
  next
    case False
    have k: "group_key grp = prev"
      using Cons.prems by (cases grp) (simp_all add: group_key_def)
    have "[od] \<noteq> []" "\<forall>r \<in> set [od]. uuid r = uuid od" by simp_all
    then have "map group_key (group_loop rest (uuid od) [od] (acc @ [grp]))
            = map group_key (acc @ [grp]) @ remdups_adj (uuid od # map uuid rest)"
      by (rule Cons.IH)
    with False k show ?thesis by simp
  qed
qed

lemma strict_sorted_remdups_adj:
  fixes us :: "'a::linorder list"
  shows "sorted us \<Longrightarrow> sorted_wrt (<) (remdups_adj us)"
proof (induction us rule: remdups_adj.induct)
  case (3 x y xs)
  show ?case
  proof (cases "x = y")
    case True
    then show ?thesis using 3 by simp
  next
    case False
    have "sorted_wrt (<) (remdups_adj (y # xs))" using 3 False by simp
    moreover have "\<forall>z \<in> set (y # xs). x < z" using "3.prems" False by auto
    ultimately show ?thesis using False by simp
  qed
qed simp_all

lemma std_sort_sorted: "std_sort xs ys \<Longrightarrow> sorted (map uuid ys)"
  by (simp add: std_sort_def sorted_wrt_map not_less)

lemma std_sort_exists: "std_sort xs (sort_key uuid xs)"
  using sorted_sort_key [of uuid xs] by (simp add: std_sort_def sorted_wrt_map not_less)

text \<open>A list cut into non-empty uniform groups with distinct keys: each group is the
  sublist of its key.\<close>

lemma group_is_records_of:
  "distinct (map group_key gs) \<Longrightarrow>
   \<forall>g \<in> set gs. g \<noteq> [] \<and> (\<forall>r \<in> set g. uuid r = group_key g) \<Longrightarrow>
   g \<in> set gs \<Longrightarrow> records_of (group_key g) (concat gs) = g"
proof (induction gs)
  case Nil
  then show ?case by simp
next
  case (Cons h gs)
  have h: "\<forall>r \<in> set h. uuid r = group_key h" using Cons.prems by simp
  have "group_key h \<notin> group_key ` set gs" using Cons.prems(1) by simp
  then have other: "\<And>g'. g' \<in> set gs \<Longrightarrow> group_key g' \<noteq> group_key h"
    by (metis imageI)
  show ?case
  proof (cases "g = h")
    case True
    have "\<forall>g' \<in> set gs. \<forall>r \<in> set g'. uuid r \<noteq> group_key h"
    proof (intro ballI)
      fix g' r assume g': "g' \<in> set gs" and r: "r \<in> set g'"
      have "group_key g' \<noteq> group_key h" using other g' by simp
      moreover have "uuid r = group_key g'" using Cons.prems(2) g' r by simp
      ultimately show "uuid r \<noteq> group_key h" by simp
    qed
    then have "records_of (group_key h) (concat gs) = []"
      by (auto simp: records_of_def filter_empty_conv)
    moreover have "records_of (group_key h) h = h"
      using h by (simp add: records_of_def)
    ultimately show ?thesis using True by (simp add: records_of_def)
  next
    case False
    then have g: "g \<in> set gs" using Cons.prems by simp
    then have "group_key g \<noteq> group_key h" using other by simp
    then have "records_of (group_key g) h = []"
      using h by (auto simp: records_of_def filter_empty_conv)
    moreover have "records_of (group_key g) (concat gs) = g"
    proof (rule Cons.IH)
      show "distinct (map group_key gs)" using Cons.prems(1) by simp
      show "\<forall>g \<in> set gs. g \<noteq> [] \<and> (\<forall>r \<in> set g. uuid r = group_key g)"
        using Cons.prems(2) by simp
      show "g \<in> set gs" by (rule g)
    qed
    ultimately show ?thesis by (simp add: records_of_def)
  qed
qed


lemma grouping_shape:
  assumes "ys \<noteq> []"
  defines "gs \<equiv> group_loop ys (uuid (hd ys)) [] []"
  shows "concat gs = ys"
    and "\<forall>g \<in> set gs. g \<noteq> [] \<and> (\<forall>r \<in> set g. uuid r = group_key g)"
    and "map group_key gs = remdups_adj (map uuid ys)"
proof -
  obtain od rest where ys: "ys = od # rest" using assms(1) by (cases ys) auto
  have gs: "gs = group_loop rest (uuid od) [od] []" by (simp add: gs_def ys)
  have ne: "[od] \<noteq> []" and un: "\<forall>r \<in> set [od]. uuid r = uuid od" by simp_all
  show "concat gs = ys" by (simp add: gs ys concat_group_loop)
  have "\<forall>g \<in> set gs. g \<noteq> []"
    unfolding gs using ne by (rule group_loop_nonempty) simp
  moreover have "\<forall>g \<in> set gs. \<forall>r \<in> set g. uuid r = group_key g"
    unfolding gs using ne un by (rule group_loop_uniform) simp
  ultimately show "\<forall>g \<in> set gs. g \<noteq> [] \<and> (\<forall>r \<in> set g. uuid r = group_key g)" by blast
  have "map group_key gs = map group_key [] @ remdups_adj (uuid od # map uuid rest)"
    unfolding gs using ne un by (rule group_loop_keys)
  then show "map group_key gs = remdups_adj (map uuid ys)" by (simp add: ys)
qed

lemma grouping_of_sorted:
  assumes "ys \<noteq> []" and "sorted (map uuid ys)"
  defines "gs \<equiv> group_loop ys (uuid (hd ys)) [] []"
  shows "map group_key gs = sorted_list_of_set (uuid ` set ys)"
    and "\<forall>g \<in> set gs. records_of (group_key g) ys = g"
proof -
  have keys: "map group_key gs = remdups_adj (map uuid ys)"
    unfolding gs_def using assms(1) by (rule grouping_shape(3))
  have strict: "sorted_wrt (<) (map group_key gs)"
    unfolding keys using assms(2) by (rule strict_sorted_remdups_adj)
  have "set (map group_key gs) = uuid ` set ys" by (simp add: keys)
  then have "set (map group_key gs) = set (sorted_list_of_set (uuid ` set ys))" by simp
  with strict show "map group_key gs = sorted_list_of_set (uuid ` set ys)"
    using strict_sorted_equal [OF strict_sorted_list_of_set] by blast
  have d: "distinct (map group_key gs)" using strict by (simp add: strict_sorted_iff)
  have u: "\<forall>g \<in> set gs. g \<noteq> [] \<and> (\<forall>r \<in> set g. uuid r = group_key g)"
    unfolding gs_def using assms(1) by (rule grouping_shape(2))
  have c: "concat gs = ys" unfolding gs_def using assms(1) by (rule grouping_shape(1))
  show "\<forall>g \<in> set gs. records_of (group_key g) ys = g"
  proof
    fix g assume "g \<in> set gs"
    with d u have "records_of (group_key g) (concat gs) = g" by (rule group_is_records_of)
    then show "records_of (group_key g) ys = g" by (simp add: c)
  qed
qed

lemma process_grouped:
  assumes "process st st'" and "is_initialized st" and "object_data_list st \<noteq> []"
  shows "std_sort (object_data_list st) (object_data_list st')"
    and "object_data_groups st'
           = group_loop (object_data_list st') (uuid (hd (object_data_list st'))) [] []"
  using assms by (auto elim: process.cases)

lemma process_unchanged:
  assumes "process st st'" and "\<not> is_initialized st \<or> object_data_list st = []"
  shows "st' = st"
  using assms by (auto elim: process.cases)

text \<open>\<open>process\<close> always returns: a sorted permutation exists.\<close>

lemma process_returns: "\<exists>st'. process st st'"
proof (cases "is_initialized st \<and> object_data_list st \<noteq> []")
  case True
  then have "process st (st\<lparr>object_data_list := sort_key uuid (object_data_list st),
      object_data_groups := group_loop (sort_key uuid (object_data_list st))
        (uuid (hd (sort_key uuid (object_data_list st)))) [] []\<rparr>)"
    by (intro process.grouped std_sort_exists) simp_all
  then show ?thesis by blast
next
  case False
  then show ?thesis by (auto intro: process.intros)
qed

lemma std_sort_nonempty: "std_sort xs ys \<Longrightarrow> xs \<noteq> [] \<Longrightarrow> ys \<noteq> []"
  by (auto simp: std_sort_def)

lemma std_sort_set: "std_sort xs ys \<Longrightarrow> set ys = set xs"
  by (auto simp: std_sort_def dest: mset_eq_setD)

lemma group_msets:
  assumes "std_sort xs ys" and "xs \<noteq> []"
  shows "map mset (group_loop ys (uuid (hd ys)) [] [])
           = map (\<lambda>u. filter_mset (\<lambda>r. uuid r = u) (mset xs)) (sorted_list_of_set (uuid ` set xs))"
proof -
  define gs where "gs = group_loop ys (uuid (hd ys)) [] []"
  have ys: "ys \<noteq> []" using assms by (rule std_sort_nonempty)
  have so: "sorted (map uuid ys)" using assms(1) by (rule std_sort_sorted)
  have keys: "map group_key gs = sorted_list_of_set (uuid ` set ys)"
    unfolding gs_def using ys so by (rule grouping_of_sorted(1))
  have recs: "\<forall>g \<in> set gs. records_of (group_key g) ys = g"
    unfolding gs_def using ys so by (rule grouping_of_sorted(2))
  have "map mset gs = map (\<lambda>g. mset (records_of (group_key g) ys)) gs"
    using recs by simp
  also have "\<dots> = map (\<lambda>u. filter_mset (\<lambda>r. uuid r = u) (mset ys)) (map group_key gs)"
    by (simp add: records_of_def)
  also have "\<dots> = map (\<lambda>u. filter_mset (\<lambda>r. uuid r = u) (mset xs))
                      (sorted_list_of_set (uuid ` set xs))"
    using assms(1) by (simp add: keys std_sort_set) (simp add: std_sort_def)
  finally show ?thesis by (simp add: gs_def)
qed

text \<open>
  Claim C3, as amended. \<open>process\<close> reorders the accumulated records with
  \<^verbatim>\<open>std::sort\<close> on the 128-bit identity: the new list is a permutation of the old one,
  it is in non-decreasing order of the identity (the display string plays no part),
  and the groups, read one after the other, are this list. Nothing is promised about
  the relative order of records with equal identity.
\<close>

theorem process_sorts_by_identity:
  assumes "process st st'" and "is_initialized st" and "object_data_list st \<noteq> []"
  shows "mset (object_data_list st') = mset (object_data_list st)
       \<and> sorted (map uuid (object_data_list st'))
       \<and> concat (object_data_groups st') = object_data_list st'"
proof -
  have s: "std_sort (object_data_list st) (object_data_list st')"
    using assms by (rule process_grouped(1))
  have g: "object_data_groups st'
           = group_loop (object_data_list st') (uuid (hd (object_data_list st'))) [] []"
    using assms by (rule process_grouped(2))
  have "object_data_list st' \<noteq> []" using s assms(3) by (rule std_sort_nonempty)
  then have "concat (object_data_groups st') = object_data_list st'"
    unfolding g by (rule grouping_shape(1))
  moreover have "sorted (map uuid (object_data_list st'))" using s by (rule std_sort_sorted)
  moreover have "mset (object_data_list st') = mset (object_data_list st)"
    using s by (simp add: std_sort_def)
  ultimately show ?thesis by simp
qed

text \<open>
  Claim C4. After \<open>process\<close> has run on a non-empty accumulated list, every group is
  non-empty, all its records carry the identity of the group, the group holds every
  accumulated record of that identity, and the identities of the groups are the
  distinct identities of the accumulated records in ascending order, each once.
\<close>

theorem process_groups_by_identity:
  assumes "process st st'" and "is_initialized st" and "object_data_list st \<noteq> []"
  shows "(\<forall>g \<in> set (object_data_groups st').
            g \<noteq> [] \<and> (\<forall>r \<in> set g. uuid r = group_key g)
            \<and> mset g = filter_mset (\<lambda>r. uuid r = group_key g) (mset (object_data_list st)))
       \<and> map group_key (object_data_groups st')
            = sorted_list_of_set (uuid ` set (object_data_list st))"
proof -
  define xs ys where "xs = object_data_list st" and "ys = object_data_list st'"
  have s: "std_sort xs ys"
    unfolding xs_def ys_def using assms by (rule process_grouped(1))
  have g: "object_data_groups st' = group_loop ys (uuid (hd ys)) [] []"
    unfolding ys_def using assms by (rule process_grouped(2))
  have ys: "ys \<noteq> []" using s assms(3) unfolding xs_def by (rule std_sort_nonempty)
  have so: "sorted (map uuid ys)" using s by (rule std_sort_sorted)
  have shape: "\<forall>g \<in> set (object_data_groups st'). g \<noteq> [] \<and> (\<forall>r \<in> set g. uuid r = group_key g)"
    unfolding g using ys by (rule grouping_shape(2))
  have recs: "\<forall>g \<in> set (object_data_groups st'). records_of (group_key g) ys = g"
    unfolding g using ys so by (rule grouping_of_sorted(2))
  have keys: "map group_key (object_data_groups st') = sorted_list_of_set (uuid ` set xs)"
    unfolding g using grouping_of_sorted(1) [OF ys so] s by (simp add: std_sort_set)
  have "\<forall>g \<in> set (object_data_groups st').
          mset g = filter_mset (\<lambda>r. uuid r = group_key g) (mset xs)"
  proof
    fix g assume "g \<in> set (object_data_groups st')"
    then have "records_of (group_key g) ys = g" using recs by simp
    then have "mset g = mset (records_of (group_key g) ys)" by simp
    also have "\<dots> = filter_mset (\<lambda>r. uuid r = group_key g) (mset xs)"
      using s by (simp add: records_of_def std_sort_def)
    finally show "mset g = filter_mset (\<lambda>r. uuid r = group_key g) (mset xs)" .
  qed
  with shape keys show ?thesis unfolding xs_def by simp
qed


subsection \<open>The order in which the channels are collected\<close>

lemma collect_loop_acc:
  "collect_loop gen t list_tracker tracker_idx detected_objects direct_assignment acc
     = (case collect_loop gen t list_tracker tracker_idx detected_objects direct_assignment [] of
          Inl e \<Rightarrow> Inl e
        | Inr new \<Rightarrow> Inr (acc @ new))"
proof (induction list_tracker arbitrary: tracker_idx acc)
  case Nil
  show ?case by simp
next
  case (Cons tracker rest)
  show ?case
  proof (cases "collect_object_data gen t tracker tracker_idx detected_objects direct_assignment")
    case (Inl e)
    then show ?thesis by simp
  next
    case (Inr od)
    have a: "collect_loop gen t rest (tracker_idx + 1) detected_objects direct_assignment (acc @ [od])
          = (case collect_loop gen t rest (tracker_idx + 1) detected_objects direct_assignment [] of
               Inl e \<Rightarrow> Inl e | Inr new \<Rightarrow> Inr ((acc @ [od]) @ new))"
      by (rule Cons.IH)
    have b: "collect_loop gen t rest (tracker_idx + 1) detected_objects direct_assignment [od]
          = (case collect_loop gen t rest (tracker_idx + 1) detected_objects direct_assignment [] of
               Inl e \<Rightarrow> Inl e | Inr new \<Rightarrow> Inr ([od] @ new))"
      by (rule Cons.IH)
    show ?thesis
      by (cases "collect_loop gen t rest (tracker_idx + 1) detected_objects direct_assignment []")
         (simp_all add: Inr a b)
  qed
qed

lemma collect_Inr:
  assumes "collect gen t list_tracker detected_objects direct_assignment st = Inr st'"
  obtains new where
    "collect_loop gen t list_tracker 0 detected_objects direct_assignment [] = Inr new"
    "st' = st\<lparr>is_initialized := True, message_time := t,
              object_data_list := object_data_list st @ new\<rparr>"
proof (cases "collect_loop gen t list_tracker 0 detected_objects direct_assignment []")
  case (Inl e)
  then have "collect gen t list_tracker detected_objects direct_assignment st = Inl e"
    by (simp add: collect_def collect_loop_acc [where acc = "object_data_list st"])
  with assms show ?thesis by simp
next
  case (Inr new)
  then have "collect gen t list_tracker detected_objects direct_assignment st
      = Inr (st\<lparr>is_initialized := True, message_time := t,
                object_data_list := object_data_list st @ new\<rparr>)"
    by (simp add: collect_def collect_loop_acc [where acc = "object_data_list st"])
  with assms Inr that show ?thesis by simp
qed

text \<open>
  A record is pushed only by \<open>collect\<close>, which sets the flag, and nothing unsets it.
\<close>

lemma reachable_initialized:
  "reachable gen st \<Longrightarrow> object_data_list st \<noteq> [] \<Longrightarrow> is_initialized st"
proof (induction rule: reachable.induct)
  case (constructed fid channels)
  then show ?case by (simp add: TrackerObjectDebugger_new_def)
next
  case (collected st t list_tracker detected_objects direct_assignment st')
  from collected.hyps(2) show ?case by (rule collect_Inr) simp
next
  case (processed st st')
  from processed.hyps(2) show ?case
  proof (cases rule: process.cases)
    case not_initialized
    then show ?thesis using processed by simp
  next
    case empty_list
    then show ?thesis by simp
  next
    case (grouped ys)
    then show ?thesis by simp
  qed
next
  case (was_reset st)
  then show ?case by (simp add: reset_def)
qed

text \<open>
  Claim C5. Collecting channel A then channel B, or channel B then channel A, from
  the same debugger state and finalizing gives the same groups as sets of records,
  group by group in identity order.
\<close>

theorem grouping_independent_of_collect_order:
  assumes "collect gen tA trackersA detectionsA assignmentA st = Inr s1"
    and "collect gen tB trackersB detectionsB assignmentB s1 = Inr s2"
    and "collect gen tB trackersB detectionsB assignmentB st = Inr t1"
    and "collect gen tA trackersA detectionsA assignmentA t1 = Inr t2"
    and "process s2 s3"
    and "process t2 t3"
  shows "map set (object_data_groups s3) = map set (object_data_groups t3)"
proof -
  obtain newA where s1: "s1 = st\<lparr>is_initialized := True, message_time := tA,
                                  object_data_list := object_data_list st @ newA\<rparr>"
    and newA: "collect_loop gen tA trackersA 0 detectionsA assignmentA [] = Inr newA"
    using assms(1) by (rule collect_Inr)
  obtain newB where s2: "s2 = s1\<lparr>is_initialized := True, message_time := tB,
                                  object_data_list := object_data_list s1 @ newB\<rparr>"
    and newB: "collect_loop gen tB trackersB 0 detectionsB assignmentB [] = Inr newB"
    using assms(2) by (rule collect_Inr)
  obtain newB' where t1: "t1 = st\<lparr>is_initialized := True, message_time := tB,
                                   object_data_list := object_data_list st @ newB'\<rparr>"
    and newB': "collect_loop gen tB trackersB 0 detectionsB assignmentB [] = Inr newB'"
    using assms(3) by (rule collect_Inr)
  obtain newA' where t2: "t2 = t1\<lparr>is_initialized := True, message_time := tA,
                                   object_data_list := object_data_list t1 @ newA'\<rparr>"
    and newA': "collect_loop gen tA trackersA 0 detectionsA assignmentA [] = Inr newA'"
    using assms(4) by (rule collect_Inr)
  have eqA: "newA' = newA" using newA newA' by simp
  have eqB: "newB' = newB" using newB newB' by simp
  define xs where "xs = object_data_list s2"
  define zs where "zs = object_data_list t2"
  have xs: "xs = object_data_list st @ newA @ newB" by (simp add: xs_def s2 s1)
  have zs: "zs = object_data_list st @ newB @ newA" by (simp add: zs_def t2 t1 eqA eqB)
  have m: "mset zs = mset xs" by (simp add: xs zs)
  have init: "is_initialized s2" "is_initialized t2" by (simp_all add: s2 t2)
  have old: "object_data_groups s2 = object_data_groups t2" by (simp add: s2 s1 t2 t1)
  show ?thesis
  proof (cases "xs = []")
    case True
    then have "zs = []" using m by (metis mset_zero_iff)
    then have "t3 = t2" using assms(6) by (intro process_unchanged) (simp_all add: zs_def)
    moreover have "s3 = s2" using assms(5) True by (intro process_unchanged) (simp_all add: xs_def)
    ultimately show ?thesis using old by simp
  next
    case False
    then have nz: "zs \<noteq> []" using m by (metis mset_zero_iff)
    have sx: "std_sort xs (object_data_list s3)"
      unfolding xs_def using assms(5) init(1) False [unfolded xs_def] by (rule process_grouped(1))
    have gx: "object_data_groups s3
        = group_loop (object_data_list s3) (uuid (hd (object_data_list s3))) [] []"
      using assms(5) init(1) False [unfolded xs_def] by (rule process_grouped(2))
    have sz: "std_sort zs (object_data_list t3)"
      unfolding zs_def using assms(6) init(2) nz [unfolded zs_def] by (rule process_grouped(1))
    have gz: "object_data_groups t3
        = group_loop (object_data_list t3) (uuid (hd (object_data_list t3))) [] []"
      using assms(6) init(2) nz [unfolded zs_def] by (rule process_grouped(2))
    have "set zs = set xs" using m by (rule mset_eq_setD)
    then have "map mset (object_data_groups s3) = map mset (object_data_groups t3)"
      unfolding gx gz group_msets [OF sx False] group_msets [OF sz nz] by (simp add: m)
    then have "map set_mset (map mset (object_data_groups s3))
        = map set_mset (map mset (object_data_groups t3))" by simp
    then show ?thesis by (simp add: comp_def)
  qed
qed

subsection \<open>The example inputs evaluated\<close>

lemma ex_uuid_7: "uuidToBoostUuid ex_gen (replicate 16 7) = 0x07070707070707070707070707070707"
  by code_simp

lemma ex_uuid_3: "uuidToBoostUuid ex_gen (replicate 16 3) = 0x03030303030303030303030303030303"
  by code_simp

lemmas ex_collect_defs =
  collect_def collect_object_data_def vector_at_def ex_trackers_def ex_tracker_def
  ex_detections_def ex_collected_def ex_record_def Let_def ex_debugger_def
  TrackerObjectDebugger_new_def

lemma ex_collect_A:
  "collect ex_gen 10 ex_trackers (ex_detections 0) [0 \<mapsto> 0] ex_debugger = Inr (ex_collected ex_A)"
  by (simp add: ex_collect_defs ex_A_def)

lemma ex_collect_AB:
  "collect ex_gen 10 ex_trackers (ex_detections 1) Map.empty (ex_collected ex_A)
     = Inr (ex_collected ex_AB)"
  by (simp add: ex_collect_defs ex_A_def ex_AB_def)

lemma ex_collect_B:
  "collect ex_gen 10 ex_trackers (ex_detections 1) Map.empty ex_debugger = Inr (ex_collected ex_B)"
  by (simp add: ex_collect_defs ex_B_def)

lemma ex_collect_BA:
  "collect ex_gen 10 ex_trackers (ex_detections 0) [0 \<mapsto> 0] (ex_collected ex_B)
     = Inr (ex_collected ex_BA)"
  by (simp add: ex_collect_defs ex_B_def ex_BA_def)

lemma ex_process:
  assumes "xs \<noteq> []" and "std_sort xs ys"
  shows "process (ex_collected xs) (ex_processed xs ys)"
proof -
  have "is_initialized (ex_collected xs)" by (simp add: ex_collected_def)
  moreover have "object_data_list (ex_collected xs) \<noteq> []"
    using assms(1) by (simp add: ex_collected_def)
  moreover have "std_sort (object_data_list (ex_collected xs)) ys"
    using assms(2) by (simp add: ex_collected_def)
  ultimately show ?thesis unfolding ex_processed_def by (rule process.grouped)
qed

lemma ex_std_sort_sorted: "std_sort ex_AB ex_sorted"
  by (simp add: std_sort_def ex_AB_def ex_sorted_def ex_record_def ex_uuid_7 ex_uuid_3)

lemma ex_std_sort_BA: "std_sort ex_BA ex_BA_sorted"
  by (simp add: std_sort_def ex_BA_def ex_BA_sorted_def ex_record_def ex_uuid_7 ex_uuid_3)

text \<open>
  These are the orders that the GNU implementation leaves: with at most 16 records
  it only runs its insertion sort, which keeps equal identities in insertion order.
\<close>

lemma ex_gnu_sort_AB: "gnu_sort uuid_less ex_AB = Some ex_sorted"
  by code_simp

lemma ex_gnu_sort_BA: "gnu_sort uuid_less ex_BA = Some ex_BA_sorted"
  by code_simp

text \<open>With 18 records the partition step runs once and swaps records of equal identity.\<close>

lemma ex_collect_many0:
  "collect ex_gen 10 ex_trackers9 (ex_detections 0) Map.empty ex_debugger
     = Inr (ex_collected ex_many0)"
  by (simp add: ex_collect_defs ex_trackers9_def ex_many0_def ex_bytes9_def)

lemma ex_collect_many:
  "collect ex_gen 10 ex_trackers9 (ex_detections 1) Map.empty (ex_collected ex_many0)
     = Inr (ex_collected ex_many)"
  by (simp add: ex_collect_defs ex_trackers9_def ex_many_def ex_many0_def ex_bytes9_def)

lemma ex_gnu_sort_many: "gnu_sort uuid_less ex_many = Some ex_many_sorted"
  by code_simp

lemma ex_std_sort_many: "std_sort ex_many ex_many_sorted"
  by code_simp

lemma ex_many_nonempty: "ex_many \<noteq> []"
  by (simp add: ex_many_def ex_many0_def ex_bytes9_def)

lemma ex_records_many:
  "records_of 0x01010101010101010101010101010101 ex_many
     = [ex_record 1 0 False, ex_record 1 1 False]"
  "records_of 0x01010101010101010101010101010101 ex_many_sorted
     = [ex_record 1 1 False, ex_record 1 0 False]"
  by code_simp+

lemma ex_first_group_many:
  "hd (group_loop ex_many_sorted (uuid (hd ex_many_sorted)) [] [])
     = [ex_record 1 1 False, ex_record 1 0 False]"
  by code_simp

subsection \<open>The claims on process on the examples\<close>

text \<open>
  Against claim C3 as stated: nine trackers, collected for channel 0 and then for
  channel 1, give 18 records. With more than 16 records the GNU implementation of
  \<^verbatim>\<open>std::sort\<close> partitions before its insertion sort, and the result holds the two
  records of identity \<open>0x0101\<dots>\<close> in the reverse of their insertion order (channel 1
  before channel 0); so does the first group.

  By hand: the list holds the identities 9, 8, \<dots>, 1 of channel 0 at the positions 0
  to 8 and those of channel 1 at the positions 9 to 17. Of the elements at the
  positions 1, 9 and 17 (identities 8, 9 and 1) the median is the 8 at position 1;
  it is swapped to the front. The partition around it swaps the positions 1 and 17,
  9 and 16, 10 and 15, and ends at 15. Now the record of identity 1 of channel 1
  stands at position 1, before that of channel 0 at position 8, and the record of
  identity 9 of channel 0 at position 17, after that of channel 1 at position 16.
  The insertion sort that follows keeps equal identities in this order.
\<close>

theorem process_not_stable_counterexample:
  "collect ex_gen 10 ex_trackers9 (ex_detections 0) Map.empty ex_debugger
     = Inr (ex_collected ex_many0)
   \<and> collect ex_gen 10 ex_trackers9 (ex_detections 1) Map.empty (ex_collected ex_many0)
       = Inr (ex_collected ex_many)
   \<and> gnu_sort uuid_less (object_data_list (ex_collected ex_many))
       = Some (object_data_list (ex_processed ex_many ex_many_sorted))
   \<and> process (ex_collected ex_many) (ex_processed ex_many ex_many_sorted)
   \<and> records_of 0x01010101010101010101010101010101 (object_data_list (ex_collected ex_many))
       = [ex_record 1 0 False, ex_record 1 1 False]
   \<and> records_of 0x01010101010101010101010101010101
         (object_data_list (ex_processed ex_many ex_many_sorted))
       = [ex_record 1 1 False, ex_record 1 0 False]
   \<and> hd (object_data_groups (ex_processed ex_many ex_many_sorted))
       = [ex_record 1 1 False, ex_record 1 0 False]
   \<and> ex_record 1 0 False \<noteq> ex_record 1 1 False"
proof -
  have "process (ex_collected ex_many) (ex_processed ex_many ex_many_sorted)"
    using ex_many_nonempty ex_std_sort_many by (rule ex_process)
  moreover have "object_data_list (ex_collected ex_many) = ex_many"
    by (simp add: ex_collected_def)
  moreover have "object_data_list (ex_processed ex_many ex_many_sorted) = ex_many_sorted"
    by (simp add: ex_processed_def)
  moreover have "object_data_groups (ex_processed ex_many ex_many_sorted)
       = group_loop ex_many_sorted (uuid (hd ex_many_sorted)) [] []"
    by (simp add: ex_processed_def)
  moreover have "ex_record 1 0 False \<noteq> ex_record 1 1 False"
    by (simp add: ex_record_def)
  ultimately show ?thesis
    using ex_collect_many0 ex_collect_many ex_gnu_sort_many ex_records_many ex_first_group_many
    by simp
qed

theorem process_sorts_by_identity_witness:
  "process (ex_collected ex_AB) (ex_processed ex_AB ex_sorted)
   \<and> is_initialized (ex_collected ex_AB)
   \<and> object_data_list (ex_collected ex_AB) \<noteq> []
   \<and> mset (object_data_list (ex_processed ex_AB ex_sorted))
       = mset (object_data_list (ex_collected ex_AB))
   \<and> sorted (map uuid (object_data_list (ex_processed ex_AB ex_sorted)))
   \<and> concat (object_data_groups (ex_processed ex_AB ex_sorted))
       = object_data_list (ex_processed ex_AB ex_sorted)"
proof -
  have p: "process (ex_collected ex_AB) (ex_processed ex_AB ex_sorted)"
    by (rule ex_process) (simp_all add: ex_AB_def ex_std_sort_sorted [unfolded ex_AB_def])
  have i: "is_initialized (ex_collected ex_AB)" by (simp add: ex_collected_def)
  have n: "object_data_list (ex_collected ex_AB) \<noteq> []" by (simp add: ex_collected_def ex_AB_def)
  show ?thesis using p i n process_sorts_by_identity [OF p i n] by simp
qed

theorem process_groups_by_identity_witness:
  "process (ex_collected ex_AB) (ex_processed ex_AB ex_sorted)
   \<and> is_initialized (ex_collected ex_AB)
   \<and> object_data_list (ex_collected ex_AB) \<noteq> []
   \<and> object_data_groups (ex_processed ex_AB ex_sorted)
       = [ [ex_record 3 0 False, ex_record 3 1 False], [ex_record 7 0 True, ex_record 7 1 False] ]
   \<and> mset [ex_record 3 0 False, ex_record 3 1 False]
       = filter_mset (\<lambda>r. uuid r = group_key [ex_record 3 0 False, ex_record 3 1 False])
           (mset (object_data_list (ex_collected ex_AB)))
   \<and> mset [ex_record 7 0 True, ex_record 7 1 False]
       = filter_mset (\<lambda>r. uuid r = group_key [ex_record 7 0 True, ex_record 7 1 False])
           (mset (object_data_list (ex_collected ex_AB)))
   \<and> map group_key (object_data_groups (ex_processed ex_AB ex_sorted))
       = sorted_list_of_set (uuid ` set (object_data_list (ex_collected ex_AB)))"
proof -
  have p: "process (ex_collected ex_AB) (ex_processed ex_AB ex_sorted)"
    by (rule ex_process) (simp_all add: ex_AB_def ex_std_sort_sorted [unfolded ex_AB_def])
  have i: "is_initialized (ex_collected ex_AB)" by (simp add: ex_collected_def)
  have n: "object_data_list (ex_collected ex_AB) \<noteq> []" by (simp add: ex_collected_def ex_AB_def)
  have g: "object_data_groups (ex_processed ex_AB ex_sorted)
       = [ [ex_record 3 0 False, ex_record 3 1 False], [ex_record 7 0 True, ex_record 7 1 False] ]"
    by (simp add: ex_processed_def ex_sorted_def ex_record_def ex_uuid_7 ex_uuid_3)
  note th = process_groups_by_identity [OF p i n]
  have b: "\<forall>g \<in> set [ [ex_record 3 0 False, ex_record 3 1 False], [ex_record 7 0 True, ex_record 7 1 False] ].
            mset g = filter_mset (\<lambda>r. uuid r = group_key g) (mset (object_data_list (ex_collected ex_AB)))"
    using th [THEN conjunct1] unfolding g by blast
  have b1: "mset [ex_record 3 0 False, ex_record 3 1 False]
       = filter_mset (\<lambda>r. uuid r = group_key [ex_record 3 0 False, ex_record 3 1 False])
           (mset (object_data_list (ex_collected ex_AB)))"
    by (rule b [rule_format]) simp
  have b2: "mset [ex_record 7 0 True, ex_record 7 1 False]
       = filter_mset (\<lambda>r. uuid r = group_key [ex_record 7 0 True, ex_record 7 1 False])
           (mset (object_data_list (ex_collected ex_AB)))"
    by (rule b [rule_format]) simp
  show ?thesis
    using p i n g b1 b2 th [THEN conjunct2] by blast
qed

theorem grouping_independent_of_collect_order_witness:
  "map set (object_data_groups (ex_processed ex_AB ex_sorted))
     = map set (object_data_groups (ex_processed ex_BA ex_BA_sorted))"
proof -
  have p: "process (ex_collected ex_AB) (ex_processed ex_AB ex_sorted)"
    by (rule ex_process) (simp_all add: ex_AB_def ex_std_sort_sorted [unfolded ex_AB_def])
  have q: "process (ex_collected ex_BA) (ex_processed ex_BA ex_BA_sorted)"
    by (rule ex_process) (simp_all add: ex_BA_def ex_std_sort_BA [unfolded ex_BA_def])
  show ?thesis
    using grouping_independent_of_collect_order
            [OF ex_collect_A ex_collect_AB ex_collect_B ex_collect_BA p q] .
qed

section \<open>Properties of draw and getMessage\<close>

lemma channel_text_loop_in_range:
  "\<forall>i \<in> set idxs. i < length ev \<Longrightarrow>
   channel_text_loop fmt channels ev idxs txt
     = Inr (txt @ concat (map (channel_part fmt channels ev) idxs))"
proof (induction idxs arbitrary: "txt")
  case Nil
  show ?case by simp
next
  case (Cons i rest)
  have i: "i < length ev" using Cons.prems by simp
  have r: "\<forall>i \<in> set rest. i < length ev" using Cons.prems by simp
  show ?case
    using i Cons.IH [OF r] by (simp add: channel_part_def)
qed

lemma channel_text_loop_out_of_range:
  "\<exists>i \<in> set idxs. length ev \<le> i \<Longrightarrow>
   channel_text_loop fmt channels ev idxs txt = Inl undefined_index"
proof (induction idxs arbitrary: "txt")
  case Nil
  then show ?case by simp
next
  case (Cons i rest)
  show ?case
  proof (cases "length ev \<le> i")
    case True
    then show ?thesis by simp
  next
    case False
    then have "\<exists>i \<in> set rest. length ev \<le> i" using Cons.prems by auto
    then have "\<And>txt. channel_text_loop fmt channels ev rest txt = Inl undefined_index"
      by (rule Cons.IH)
    then show ?thesis using False by simp
  qed
qed

lemma existence_probability_text_in_range:
  assumes "length channels \<le> length (existence_vector od)"
  shows "existence_probability_text fmt channels od
     = Inr (pop_back (''total:'' @ to_string (static_cast_int (fp_mul fmt (total_existence_probability od) 100))
              @ [CHR 0x0A]
              @ concat (map (channel_part fmt channels (existence_vector od)) [0..<length channels]))
            @ [CHR 0x0A] @ take 6 (uuid_str od))"
proof -
  have "\<forall>i \<in> set [0..<length channels]. i < length (existence_vector od)"
    using assms by simp
  then show ?thesis
    by (simp add: existence_probability_text_def channel_text_loop_in_range)
qed

lemma existence_probability_text_out_of_range:
  assumes "length (existence_vector od) < length channels"
  shows "existence_probability_text fmt channels od = Inl undefined_index"
proof -
  have "\<exists>i \<in> set [0..<length channels]. length (existence_vector od) \<le> i"
    using assms by auto
  then show ?thesis
    by (simp add: existence_probability_text_def channel_text_loop_out_of_range)
qed

lemma add_markers_loop_in_range:
  "\<forall>i \<in> set idxs. i < length per_channel \<Longrightarrow>
   add_markers_loop per_channel idxs marker_array
     = Inr (marker_array @ map (\<lambda>i. flag_empty (per_channel ! i)) idxs)"
proof (induction idxs arbitrary: marker_array)
  case Nil
  show ?case by simp
next
  case (Cons i rest)
  have i: "i < length per_channel" using Cons.prems by simp
  have r: "\<forall>i \<in> set rest. i < length per_channel" using Cons.prems by simp
  show ?case
    using i Cons.IH [OF r] by (simp add: vector_at_def flag_empty_def)
qed

lemma add_markers_loop_all:
  "add_markers_loop per_channel [0..<length per_channel] marker_array
     = Inr (marker_array @ map flag_empty per_channel)"
proof -
  have "map (\<lambda>i. flag_empty (per_channel ! i)) [0..<length per_channel] = map flag_empty per_channel"
    by (rule nth_equalityI) simp_all
  then show ?thesis by (simp add: add_markers_loop_in_range)
qed


lemma strip_points_push_point [simp]: "strip_points (push_point p m) = strip_points m"
  by (simp add: strip_points_def push_point_def)

lemma map_strip_points_update:
  "i < length ms \<Longrightarrow> strip_points m = strip_points (ms ! i) \<Longrightarrow>
   map strip_points (ms[i := m]) = map strip_points ms"
  by (simp add: map_update list_update_same_conv)

lemma draw_object_data_unassociated:
  "\<not> is_associated od \<Longrightarrow>
   draw_object_data od gm
     = Inr (gm\<lparr>marker_track_boxes :=
                push_point \<lparr>point_x = point_x (tracker_point od), point_y = point_y (tracker_point od),
                            point_z = point_z (tracker_point od) + 1\<rparr> (marker_track_boxes gm)\<rparr>)"
  by (simp add: draw_object_data_def Let_def)

lemma draw_object_data_out_of_range:
  assumes "is_associated od"
    and "\<not> (0 \<le> channel_id od \<and> nat (channel_id od) < length (marker_detect_boxes_per_channel gm))"
  shows "draw_object_data od gm = Inl out_of_range"
  using assms by (simp add: draw_object_data_def Let_def vector_at_def)

lemma draw_object_data_associated:
  assumes "is_associated od"
    and "0 \<le> channel_id od"
    and "nat (channel_id od) < length (marker_detect_boxes_per_channel gm)"
    and "length (marker_detect_lines_per_channel gm) = length (marker_detect_boxes_per_channel gm)"
  shows "\<exists>gm'. draw_object_data od gm = Inr gm'"
  using assms by (simp add: draw_object_data_def Let_def vector_at_def)

lemma draw_object_data_Inr:
  assumes "draw_object_data od gm = Inr gm'"
  shows "map strip_points (marker_detect_boxes_per_channel gm')
           = map strip_points (marker_detect_boxes_per_channel gm)"
    and "map strip_points (marker_detect_lines_per_channel gm')
           = map strip_points (marker_detect_lines_per_channel gm)"
    and "strip_points (marker_track_boxes gm') = strip_points (marker_track_boxes gm)"
    and "group_is_associated gm' = (group_is_associated gm \<or> is_associated od)"
  using assms
  by (auto simp: draw_object_data_def Let_def vector_at_def map_strip_points_update
           split: if_splits sum.splits)

lemma draw_group_loop_Inr:
  assumes "draw_group_loop g gm = Inr gm'"
  shows "map strip_points (marker_detect_boxes_per_channel gm')
           = map strip_points (marker_detect_boxes_per_channel gm)
       \<and> map strip_points (marker_detect_lines_per_channel gm')
           = map strip_points (marker_detect_lines_per_channel gm)
       \<and> strip_points (marker_track_boxes gm') = strip_points (marker_track_boxes gm)
       \<and> group_is_associated gm' = (group_is_associated gm \<or> (\<exists>od \<in> set g. is_associated od))"
  using assms
proof (induction g arbitrary: gm)
  case Nil
  then show ?case by simp
next
  case (Cons od rest)
  show ?case
  proof (cases "draw_object_data od gm")
    case (Inl e)
    with Cons.prems show ?thesis by simp
  next
    case (Inr gm1)
    then have "draw_group_loop rest gm1 = Inr gm'" using Cons.prems by simp
    from Cons.IH [OF this] draw_object_data_Inr [OF Inr] show ?thesis by auto
  qed
qed


lemma draw_group_loop_returns:
  assumes "\<forall>od \<in> set g. is_associated od \<longrightarrow>
             0 \<le> channel_id od \<and> nat (channel_id od) < length (marker_detect_boxes_per_channel gm)"
    and "length (marker_detect_lines_per_channel gm) = length (marker_detect_boxes_per_channel gm)"
  shows "\<exists>gm'. draw_group_loop g gm = Inr gm'"
  using assms
proof (induction g arbitrary: gm)
  case Nil
  show ?case by simp
next
  case (Cons od rest)
  have "\<exists>gm1. draw_object_data od gm = Inr gm1"
  proof (cases "is_associated od")
    case True
    then show ?thesis using Cons.prems by (intro draw_object_data_associated) simp_all
  next
    case False
    then show ?thesis by (simp add: draw_object_data_unassociated)
  qed
  then obtain gm1 where gm1: "draw_object_data od gm = Inr gm1" by blast
  have b: "length (marker_detect_boxes_per_channel gm1) = length (marker_detect_boxes_per_channel gm)"
    using draw_object_data_Inr(1) [OF gm1] by (rule map_eq_imp_length_eq)
  have l: "length (marker_detect_lines_per_channel gm1) = length (marker_detect_lines_per_channel gm)"
    using draw_object_data_Inr(2) [OF gm1] by (rule map_eq_imp_length_eq)
  have "\<exists>gm'. draw_group_loop rest gm1 = Inr gm'"
  proof (rule Cons.IH)
    show "\<forall>od \<in> set rest. is_associated od \<longrightarrow>
            0 \<le> channel_id od \<and> nat (channel_id od) < length (marker_detect_boxes_per_channel gm1)"
      using Cons.prems(1) by (simp add: b)
    show "length (marker_detect_lines_per_channel gm1) = length (marker_detect_boxes_per_channel gm1)"
      using Cons.prems(2) by (simp add: b l)
  qed
  then show ?case by (simp add: gm1)
qed

lemma draw_group_unfold:
  "draw_group hash_value fmt st g marker_array =
     (case existence_probability_text fmt (channels_config st) (hd g) of
        Inl e \<Rightarrow> Inl e
      | Inr s \<Rightarrow>
          (case draw_group_loop g (group_markers_init hash_value st (hd g)) of
             Inl e \<Rightarrow> Inl e
           | Inr gm \<Rightarrow>
               (case add_markers_loop (marker_detect_boxes_per_channel gm)
                       [0..<length (channels_config st)] marker_array of
                  Inl e \<Rightarrow> Inl e
                | Inr marker_array1 \<Rightarrow>
                    (case add_markers_loop (marker_detect_lines_per_channel gm)
                            [0..<length (channels_config st)] marker_array1 of
                       Inl e \<Rightarrow> Inl e
                     | Inr marker_array2 \<Rightarrow>
                         Inr (marker_array2
                              @ finish_group gm (text_marker_of hash_value st (hd g) s))))))"
  by (simp add: draw_group_def Let_def group_markers_init_def text_marker_of_def finish_group_def
           split: sum.splits)

lemma group_markers_init_lengths:
  "length (marker_detect_boxes_per_channel (group_markers_init hash_value st front))
     = length (channels_config st)"
  "length (marker_detect_lines_per_channel (group_markers_init hash_value st front))
     = length (channels_config st)"
  by (simp_all add: group_markers_init_def)

lemma draw_group_loop_lengths:
  assumes "draw_group_loop g (group_markers_init hash_value st front) = Inr gm"
  shows "length (marker_detect_boxes_per_channel gm) = length (channels_config st)"
    and "length (marker_detect_lines_per_channel gm) = length (channels_config st)"
proof -
  note inv = draw_group_loop_Inr [OF assms]
  have "length (marker_detect_boxes_per_channel gm)
      = length (marker_detect_boxes_per_channel (group_markers_init hash_value st front))"
    by (rule map_eq_imp_length_eq [OF inv [THEN conjunct1] ])
  then show "length (marker_detect_boxes_per_channel gm) = length (channels_config st)"
    by (simp add: group_markers_init_lengths)
  have "length (marker_detect_lines_per_channel gm)
      = length (marker_detect_lines_per_channel (group_markers_init hash_value st front))"
    by (rule map_eq_imp_length_eq [OF inv [THEN conjunct2, THEN conjunct1] ])
  then show "length (marker_detect_lines_per_channel gm) = length (channels_config st)"
    by (simp add: group_markers_init_lengths)
qed

lemma draw_group_eq:
  "draw_group hash_value fmt st g marker_array =
     (case existence_probability_text fmt (channels_config st) (hd g) of
        Inl e \<Rightarrow> Inl e
      | Inr s \<Rightarrow>
          (case draw_group_loop g (group_markers_init hash_value st (hd g)) of
             Inl e \<Rightarrow> Inl e
           | Inr gm \<Rightarrow>
               Inr (marker_array
                    @ map flag_empty (marker_detect_boxes_per_channel gm)
                    @ map flag_empty (marker_detect_lines_per_channel gm)
                    @ finish_group gm (text_marker_of hash_value st (hd g) s))))"
proof (cases "existence_probability_text fmt (channels_config st) (hd g)")
  case (Inl e)
  then show ?thesis by (simp add: draw_group_unfold)
next
  case s: (Inr s)
  show ?thesis
  proof (cases "draw_group_loop g (group_markers_init hash_value st (hd g))")
    case (Inl e)
    then show ?thesis by (simp add: draw_group_unfold s)
  next
    case (Inr gm)
    have b: "[0..<length (channels_config st)] = [0..<length (marker_detect_boxes_per_channel gm)]"
      using draw_group_loop_lengths(1) [OF Inr] by simp
    have l: "[0..<length (channels_config st)] = [0..<length (marker_detect_lines_per_channel gm)]"
      using draw_group_loop_lengths(2) [OF Inr] by simp
    have 1: "add_markers_loop (marker_detect_boxes_per_channel gm)
               [0..<length (channels_config st)] marker_array
             = Inr (marker_array @ map flag_empty (marker_detect_boxes_per_channel gm))"
      unfolding b by (rule add_markers_loop_all)
    have 2: "\<And>ma. add_markers_loop (marker_detect_lines_per_channel gm)
               [0..<length (channels_config st)] ma
             = Inr (ma @ map flag_empty (marker_detect_lines_per_channel gm))"
      unfolding l by (rule add_markers_loop_all)
    show ?thesis by (simp add: draw_group_unfold s Inr 1 2)
  qed
qed

lemma draw_group_Inr:
  assumes "draw_group hash_value fmt st g marker_array = Inr out"
  obtains s gm where
    "existence_probability_text fmt (channels_config st) (hd g) = Inr s"
    "draw_group_loop g (group_markers_init hash_value st (hd g)) = Inr gm"
    "out = marker_array
           @ map flag_empty (marker_detect_boxes_per_channel gm)
           @ map flag_empty (marker_detect_lines_per_channel gm)
           @ finish_group gm (text_marker_of hash_value st (hd g) s)"
  using assms unfolding draw_group_eq by (auto split: sum.splits)


lemma draw_group_extends:
  assumes "draw_group hash_value fmt st g marker_array = Inr out"
  shows "\<exists>ms. out = marker_array @ ms"
  using assms by (rule draw_group_Inr) simp

lemma draw_groups_extends:
  assumes "draw_groups hash_value fmt st groups marker_array = Inr out"
  shows "\<exists>ms. out = marker_array @ ms"
  using assms
proof (induction groups arbitrary: marker_array)
  case Nil
  then show ?case by simp
next
  case (Cons g rest)
  show ?case
  proof (cases "g = []")
    case True
    then show ?thesis using Cons by simp
  next
    case False
    show ?thesis
    proof (cases "draw_group hash_value fmt st g marker_array")
      case (Inl e)
      then show ?thesis using Cons.prems False by simp
    next
      case (Inr out1)
      then have "draw_groups hash_value fmt st rest out1 = Inr out" using Cons.prems False by simp
      then obtain ms where "out = out1 @ ms" using Cons.IH by blast
      moreover obtain ms1 where "out1 = marker_array @ ms1"
        using draw_group_extends [OF Inr] by blast
      ultimately show ?thesis by simp
    qed
  qed
qed

text \<open>
  Every non-empty group of a call of \<open>draw\<close> that returns is rendered by the loop body:
  its markers follow those of the groups before it and precede those of the groups
  after it.
\<close>

lemma draw_groups_rendered:
  assumes "draw_groups hash_value fmt st groups marker_array = Inr out"
    and "g \<in> set groups" and "g \<noteq> []"
  shows "\<exists>before ms after. draw_group hash_value fmt st g before = Inr (before @ ms)
            \<and> out = before @ ms @ after"
  using assms
proof (induction groups arbitrary: marker_array)
  case Nil
  then show ?case by simp
next
  case (Cons h rest)
  show ?case
  proof (cases "h = []")
    case True
    then have "draw_groups hash_value fmt st rest marker_array = Inr out" "g \<in> set rest"
      using Cons.prems by auto
    then show ?thesis using Cons.IH Cons.prems(3) by blast
  next
    case False
    show ?thesis
    proof (cases "draw_group hash_value fmt st h marker_array")
      case (Inl e)
      then show ?thesis using Cons.prems(1) False by simp
    next
      case (Inr out1)
      then have rest: "draw_groups hash_value fmt st rest out1 = Inr out"
        using Cons.prems(1) False by simp
      show ?thesis
      proof (cases "g = h")
        case True
        obtain ms where ms: "out1 = marker_array @ ms"
          using draw_group_extends [OF Inr] by blast
        obtain after where "out = out1 @ after"
          using draw_groups_extends [OF rest] by blast
        then have "out = marker_array @ ms @ after" by (simp add: ms)
        moreover have "draw_group hash_value fmt st g marker_array = Inr (marker_array @ ms)"
          using Inr True ms by simp
        ultimately show ?thesis by blast
      next
        case False
        then have "g \<in> set rest" using Cons.prems(2) by simp
        then show ?thesis using Cons.IH [OF rest _ Cons.prems(3)] by blast
      qed
    qed
  qed
qed

lemma draw_rendered:
  assumes "draw hash_value fmt st groups marker_array = Inr out"
    and "g \<in> set groups" and "g \<noteq> []"
  shows "\<exists>before ms after. draw_group hash_value fmt st g before = Inr (before @ ms)
            \<and> out = before @ ms @ after"
  using assms unfolding draw_def by (rule draw_groups_rendered)

lemma strip_points_fields:
  assumes "strip_points m = strip_points m'"
  shows "marker_ns m = marker_ns m'" and "marker_action m = marker_action m'"
    and "marker_color m = marker_color m'"
proof -
  have "marker_ns (strip_points m) = marker_ns (strip_points m')"
    "marker_action (strip_points m) = marker_action (strip_points m')"
    "marker_color (strip_points m) = marker_color (strip_points m')"
    using assms by simp_all
  then show "marker_ns m = marker_ns m'" and "marker_action m = marker_action m'"
    and "marker_color m = marker_color m'"
    by (simp_all add: strip_points_def)
qed

lemma flag_empty_fields:
  "marker_ns (flag_empty m) = marker_ns m"
  "marker_points (flag_empty m) = marker_points m"
  "marker_action (flag_empty m) = (if marker_points m = [] then DELETE else marker_action m)"
  by (simp_all add: flag_empty_def)

text \<open>
  Claim C8. In the markers that the loop body pushes for a group, the detection-box
  marker and the association-line marker of every configured channel \<open>i\<close> are present,
  at the positions \<open>i\<close> and \<open>n + i\<close> after the markers already in the array (\<open>n\<close> channels,
  \<open>2n + 2\<close> markers for the group); a marker of these without points carries the action
  \<^verbatim>\<open>DELETE\<close>, one with points the action \<^verbatim>\<open>ADD\<close>.
\<close>

theorem empty_channel_markers_are_deleted:
  assumes "draw_group hash_value fmt st g marker_array = Inr out"
    and "i < length (channels_config st)"
  shows "length out = length marker_array + 2 * length (channels_config st) + 2
       \<and> marker_ns (out ! (length marker_array + i))
           = ''detect_boxes_'' @ short_name (channels_config st ! i)
       \<and> marker_action (out ! (length marker_array + i))
           = (if marker_points (out ! (length marker_array + i)) = [] then DELETE else ADD)
       \<and> marker_ns (out ! (length marker_array + length (channels_config st) + i))
           = ''association_lines_'' @ short_name (channels_config st ! i)
       \<and> marker_action (out ! (length marker_array + length (channels_config st) + i))
           = (if marker_points (out ! (length marker_array + length (channels_config st) + i)) = []
              then DELETE else ADD)"
proof -
  define n where "n = length (channels_config st)"
  obtain s gm where
    loop: "draw_group_loop g (group_markers_init hash_value st (hd g)) = Inr gm"
    and out: "out = marker_array
           @ map flag_empty (marker_detect_boxes_per_channel gm)
           @ map flag_empty (marker_detect_lines_per_channel gm)
           @ finish_group gm (text_marker_of hash_value st (hd g) s)"
    using assms(1) by (rule draw_group_Inr)
  define bs ls where "bs = marker_detect_boxes_per_channel gm"
    and "ls = marker_detect_lines_per_channel gm"
  have lb: "length bs = n" and ll: "length ls = n"
    unfolding bs_def ls_def n_def using draw_group_loop_lengths [OF loop] by simp_all
  have i: "i < n" using assms(2) by (simp add: n_def)
  note inv = draw_group_loop_Inr [OF loop]
  have "map strip_points bs ! i
      = map strip_points (marker_detect_boxes_per_channel (group_markers_init hash_value st (hd g))) ! i"
    unfolding bs_def using inv by simp
  then have sb: "strip_points (bs ! i)
      = strip_points (detect_boxes_marker (reference_marker hash_value st (hd g)) (channels_config st) i)"
    using i lb by (simp add: group_markers_init_def n_def)
  have "map strip_points ls ! i
      = map strip_points (marker_detect_lines_per_channel (group_markers_init hash_value st (hd g))) ! i"
    unfolding ls_def using inv by simp
  then have sl: "strip_points (ls ! i)
      = strip_points (association_lines_marker (reference_marker hash_value st (hd g)) (channels_config st) i)"
    using i ll by (simp add: group_markers_init_def n_def)
  have fg: "length (finish_group gm (text_marker_of hash_value st (hd g) s)) = 2"
    by (simp add: finish_group_def)
  have len: "length out = length marker_array + 2 * n + 2"
    by (simp add: out fg lb ll flip: bs_def ls_def)
  have ob: "out ! (length marker_array + i) = flag_empty (bs ! i)"
    using i lb by (simp add: out nth_append flip: bs_def ls_def)
  have ol: "out ! (length marker_array + n + i) = flag_empty (ls ! i)"
    using i lb ll by (simp add: out nth_append flip: bs_def ls_def)
  have nb: "marker_ns (bs ! i) = ''detect_boxes_'' @ short_name (channels_config st ! i)"
    and ab: "marker_action (bs ! i) = ADD"
    using strip_points_fields(1,2) [OF sb] by (simp_all add: detect_boxes_marker_def)
  have nl: "marker_ns (ls ! i) = ''association_lines_'' @ short_name (channels_config st ! i)"
    and al: "marker_action (ls ! i) = ADD"
    using strip_points_fields(1,2) [OF sl] by (simp_all add: association_lines_marker_def)
  show ?thesis
    unfolding n_def [symmetric] by (simp add: len ob ol flag_empty_fields nb ab nl al)
qed

text \<open>
  Claim C7. The last two markers pushed for a group are the label and the track
  boxes. If no record of the group is associated they are grey (0.5, 0.5, 0.5 with
  alpha 0.9 and 0.8); if some record is associated they keep the colours they were
  given at first (white with alpha 1 and 0.9).
\<close>

theorem unassociated_group_is_grey:
  assumes "draw_group hash_value fmt st g marker_array = Inr out"
  shows "marker_ns (last (butlast out)) = ''existence_probability''
       \<and> marker_ns (last out) = ''track_boxes''
       \<and> (if \<exists>od \<in> set g. is_associated od
          then marker_color (last (butlast out))
                 = \<lparr>color_r = 1, color_g = 1, color_b = 1, color_a = 1\<rparr>
             \<and> marker_color (last out)
                 = \<lparr>color_r = 1, color_g = 1, color_b = 1, color_a = 9 / 10\<rparr>
          else marker_color (last (butlast out))
                 = \<lparr>color_r = 1 / 2, color_g = 1 / 2, color_b = 1 / 2, color_a = 9 / 10\<rparr>
             \<and> marker_color (last out)
                 = \<lparr>color_r = 1 / 2, color_g = 1 / 2, color_b = 1 / 2, color_a = 8 / 10\<rparr>)"
proof -
  obtain s gm where
    loop: "draw_group_loop g (group_markers_init hash_value st (hd g)) = Inr gm"
    and out: "out = marker_array
           @ map flag_empty (marker_detect_boxes_per_channel gm)
           @ map flag_empty (marker_detect_lines_per_channel gm)
           @ finish_group gm (text_marker_of hash_value st (hd g) s)"
    using assms(1) by (rule draw_group_Inr)
  note inv = draw_group_loop_Inr [OF loop]
  have assoc: "group_is_associated gm = (\<exists>od \<in> set g. is_associated od)"
    using inv by (simp add: group_markers_init_def)
  have st: "strip_points (marker_track_boxes gm)
      = strip_points (marker_track_boxes (group_markers_init hash_value st (hd g)))"
    using inv by simp
  have tn: "marker_ns (marker_track_boxes gm) = ''track_boxes''"
    and tc: "marker_color (marker_track_boxes gm)
         = \<lparr>color_r = 1, color_g = 1, color_b = 1, color_a = 9 / 10\<rparr>"
    using strip_points_fields(1,3) [OF st] by (simp_all add: group_markers_init_def)
  have xn: "marker_ns (text_marker_of hash_value st (hd g) s) = ''existence_probability''"
    and xc: "marker_color (text_marker_of hash_value st (hd g) s)
         = \<lparr>color_r = 1, color_g = 1, color_b = 1, color_a = 1\<rparr>"
    by (simp_all add: text_marker_of_def reference_marker_def)
  define pre where "pre = marker_array
           @ map flag_empty (marker_detect_boxes_per_channel gm)
           @ map flag_empty (marker_detect_lines_per_channel gm)"
  have o: "out = pre @ finish_group gm (text_marker_of hash_value st (hd g) s)"
    by (simp add: out pre_def)
  show ?thesis
    unfolding o by (simp add: finish_group_def assoc [symmetric] tn tc xn xc butlast_append)
qed


lemma finish_group_text:
  "marker_text (last (butlast (pre @ finish_group gm (text_marker_of hash_value st front s)))) = s"
  by (simp add: finish_group_def text_marker_of_def butlast_append)

lemma draw_group_label_text:
  assumes "draw_group hash_value fmt st g marker_array = Inr out"
  shows "existence_probability_text fmt (channels_config st) (hd g)
           = Inr (marker_text (last (butlast out)))"
proof -
  obtain s gm where
    s: "existence_probability_text fmt (channels_config st) (hd g) = Inr s"
    and out: "out = marker_array
           @ map flag_empty (marker_detect_boxes_per_channel gm)
           @ map flag_empty (marker_detect_lines_per_channel gm)
           @ finish_group gm (text_marker_of hash_value st (hd g) s)"
    using assms(1) by (rule draw_group_Inr)
  have "out = (marker_array
           @ map flag_empty (marker_detect_boxes_per_channel gm)
           @ map flag_empty (marker_detect_lines_per_channel gm))
           @ finish_group gm (text_marker_of hash_value st (hd g) s)"
    by (simp add: out)
  then have "marker_text (last (butlast out)) = s"
    by (simp only: finish_group_text)
  with s show ?thesis by simp
qed

lemma existence_probability_text_Inr:
  assumes "existence_probability_text fmt channels od = Inr s"
  shows "length channels \<le> length (existence_vector od)"
proof (rule ccontr)
  assume "\<not> length channels \<le> length (existence_vector od)"
  then have "existence_probability_text fmt channels od = Inl undefined_index"
    by (intro existence_probability_text_out_of_range) simp
  with assms show False by simp
qed

text \<open>
  Claim C9. The label text of a rendered group holds, between the line of the total
  and the line of the identity, one part for each configured channel index in
  order: nothing when the entry of the existence vector is below 0.00101, and
  otherwise the short name of the channel, the integer percentage of the entry and
  a colon. The integer percentage is the floating-point product of the entry and
  100, converted to \<^verbatim>\<open>int\<close>.
\<close>

theorem label_channel_entries:
  assumes "draw_group hash_value fmt st g marker_array = Inr out"
  shows "marker_text (last (butlast out))
     = pop_back (''total:''
                 @ to_string (static_cast_int (fp_mul fmt (total_existence_probability (hd g)) 100))
                 @ [CHR 0x0A]
                 @ concat (map (\<lambda>i. if existence_vector (hd g) ! i < 101 / 100000 then []
                                     else short_name (channels_config st ! i)
                                          @ to_string (static_cast_int (fp_mul fmt (existence_vector (hd g) ! i) 100))
                                          @ '':'')
                            [0..<length (channels_config st)]))
       @ [CHR 0x0A] @ take 6 (uuid_str (hd g))"
proof -
  have s: "existence_probability_text fmt (channels_config st) (hd g)
           = Inr (marker_text (last (butlast out)))"
    using assms by (rule draw_group_label_text)
  then have "length (channels_config st) \<le> length (existence_vector (hd g))"
    by (rule existence_probability_text_Inr)
  from existence_probability_text_in_range [OF this] s
  show ?thesis by (simp add: channel_part_def [abs_def])
qed

lemma channel_parts_shown:
  "concat (map (channel_part fmt channels ev) idxs)
     = concat (map (\<lambda>i. short_name (channels ! i) @ to_string (static_cast_int (fp_mul fmt (ev ! i) 100)) @ '':'')
                (filter (\<lambda>i. 101 / 100000 \<le> ev ! i) idxs))"
  by (induction idxs) (simp_all add: channel_part_def not_less)

text \<open>
  Claim C2, as amended. For a rendered non-empty group whose front record has at least
  one configured channel with an entry of at least 0.00101, the label text is
  \<open>total:\<close>, the floating-point product of the total probability and 100 truncated
  toward zero, a newline, then for each such channel the short name, the
  floating-point product of the entry and 100 truncated toward zero and a colon,
  the last colon removed, then a newline and the first 6 characters of the display
  string of the identity.
\<close>

theorem label_text_with_channels:
  assumes "draw_group hash_value fmt st g marker_array = Inr out"
    and "g \<noteq> []"
    and "\<exists>i < length (channels_config st). 101 / 100000 \<le> existence_vector (hd g) ! i"
  shows "marker_text (last (butlast out))
     = ''total:'' @ to_string (static_cast_int (fp_mul fmt (total_existence_probability (hd g)) 100))
       @ [CHR 0x0A]
       @ butlast (concat (map (\<lambda>i. short_name (channels_config st ! i)
                                   @ to_string (static_cast_int (fp_mul fmt (existence_vector (hd g) ! i) 100))
                                   @ '':'')
                   (filter (\<lambda>i. 101 / 100000 \<le> existence_vector (hd g) ! i)
                      [0..<length (channels_config st)])))
       @ [CHR 0x0A] @ take 6 (uuid_str (hd g))"
proof -
  define ev where "ev = existence_vector (hd g)"
  define channels where "channels = channels_config st"
  define entries where "entries =
    concat (map (\<lambda>i. short_name (channels ! i) @ to_string (static_cast_int (fp_mul fmt (ev ! i) 100)) @ '':'')
             (filter (\<lambda>i. 101 / 100000 \<le> ev ! i) [0..<length channels]))"
  define header where "header =
    ''total:'' @ to_string (static_cast_int (fp_mul fmt (total_existence_probability (hd g)) 100)) @ [CHR 0x0A]"
  have s: "existence_probability_text fmt channels (hd g) = Inr (marker_text (last (butlast out)))"
    unfolding channels_def using assms(1) by (rule draw_group_label_text)
  then have "length channels \<le> length (existence_vector (hd g))"
    by (rule existence_probability_text_Inr)
  from existence_probability_text_in_range [OF this] s
  have "marker_text (last (butlast out))
      = pop_back (header @ entries) @ [CHR 0x0A] @ take 6 (uuid_str (hd g))"
    by (simp add: channel_parts_shown header_def entries_def ev_def)
  moreover have "entries \<noteq> []"
  proof -
    obtain i where "i < length channels" "101 / 100000 \<le> ev ! i"
      using assms(3) unfolding channels_def ev_def by blast
    then have "i \<in> set (filter (\<lambda>i. 101 / 100000 \<le> ev ! i) [0..<length channels])" by simp
    then show ?thesis unfolding entries_def by auto
  qed
  ultimately have "marker_text (last (butlast out))
      = header @ butlast entries @ [CHR 0x0A] @ take 6 (uuid_str (hd g))"
    by (simp add: pop_back_def butlast_append)
  then show ?thesis
    unfolding header_def entries_def ev_def channels_def by simp
qed


lemma draw_group_returns:
  assumes "length (channels_config st) \<le> length (existence_vector (hd g))"
    and "\<forall>od \<in> set g. is_associated od \<longrightarrow>
           0 \<le> channel_id od \<and> channel_id od < int (length (channels_config st))"
  shows "\<exists>out. draw_group hash_value fmt st g marker_array = Inr out"
proof -
  have "\<exists>gm. draw_group_loop g (group_markers_init hash_value st (hd g)) = Inr gm"
  proof (rule draw_group_loop_returns)
    show "\<forall>od \<in> set g. is_associated od \<longrightarrow> 0 \<le> channel_id od
            \<and> nat (channel_id od)
                < length (marker_detect_boxes_per_channel (group_markers_init hash_value st (hd g)))"
      using assms(2) by (auto simp: group_markers_init_lengths)
    show "length (marker_detect_lines_per_channel (group_markers_init hash_value st (hd g)))
        = length (marker_detect_boxes_per_channel (group_markers_init hash_value st (hd g)))"
      by (simp add: group_markers_init_lengths)
  qed
  then obtain gm where "draw_group_loop g (group_markers_init hash_value st (hd g)) = Inr gm"
    by blast
  then show ?thesis
    by (simp add: draw_group_eq existence_probability_text_in_range [OF assms(1)])
qed

lemma draw_groups_returns:
  assumes "draw_precondition (channels_config st) groups"
  shows "\<exists>out. draw_groups hash_value fmt st groups marker_array = Inr out"
  using assms
proof (induction groups arbitrary: marker_array)
  case Nil
  show ?case by simp
next
  case (Cons g rest)
  have rest: "draw_precondition (channels_config st) rest"
    using Cons.prems by (simp add: draw_precondition_def)
  show ?case
  proof (cases "g = []")
    case True
    then show ?thesis using Cons.IH [OF rest] by simp
  next
    case False
    then have "hd g \<in> set g" by simp
    then have "length (channels_config st) \<le> length (existence_vector (hd g))"
      using Cons.prems by (simp add: draw_precondition_def)
    moreover have "\<forall>od \<in> set g. is_associated od \<longrightarrow>
           0 \<le> channel_id od \<and> channel_id od < int (length (channels_config st))"
      using Cons.prems by (simp add: draw_precondition_def)
    ultimately obtain out1 where "draw_group hash_value fmt st g marker_array = Inr out1"
      using draw_group_returns by blast
    then show ?thesis using False Cons.IH [OF rest, of out1] by simp
  qed
qed

text \<open>
  Claim C10, as amended. If in every group every record has its channel id within the
  configured channels and an existence vector at least as long as the channel
  configuration, then \<open>draw\<close> returns: no indexed access is out of range.
\<close>

theorem draw_total_under_precondition:
  assumes "draw_precondition (channels_config st) groups"
  shows "returns (draw hash_value fmt st groups marker_array)"
proof -
  obtain out where "draw_groups hash_value fmt st groups [] = Inr out"
    using draw_groups_returns [OF assms] by blast
  then show ?thesis by (simp add: draw_def returns_def)
qed







subsection \<open>Percentages\<close>

text \<open>
  The percentage is cut from the rounded product, not from the exact one. The
  \<^verbatim>\<open>double\<close> nearest to 0.3 lies below 0.3; its product with 100 rounds to 30, which
  is printed, where the exact product would give 29. The same holds for the
  \<^verbatim>\<open>float\<close> nearest to 0.29.
\<close>

lemma percent_double_example:
  "fp_round binary64 (3 / 10) = 5404319552844595 / 18014398509481984"
  "static_cast_int (fp_mul binary64 (5404319552844595 / 18014398509481984) 100) = 30"
  "\<lfloor>(5404319552844595 / 18014398509481984 :: rat) * 100\<rfloor> = 29"
  by code_simp+

lemma percent_float_example:
  "fp_round binary32 (29 / 100) = 9730785 / 33554432"
  "static_cast_int (fp_mul binary32 (9730785 / 33554432) 100) = 29"
  "\<lfloor>(9730785 / 33554432 :: rat) * 100\<rfloor> = 28"
  by code_simp+

text \<open>A product that both formats hold exactly is not changed by the rounding.\<close>

lemma percent_exact_example:
  "fp_mul binary32 (255 / 256) 100 = 6375 / 64"
  "fp_mul binary64 (255 / 256) 100 = 6375 / 64"
  "static_cast_int (6375 / 64) = 99"
  "round (255 / 256 * 100 :: rat) = 100"
  by code_simp+

subsection \<open>The claims on the examples\<close>

lemma ex_channels_config [simp]: "channels_config ex_debugger = ex_channels"
  by (simp add: ex_debugger_def TrackerObjectDebugger_new_def)

lemma ex_text_associated:
  "existence_probability_text binary32 ex_channels (ex_record 7 0 True)
     = Inr (''total:99'' @ [CHR 0x0A] @ ''L50'' @ [CHR 0x0A] @ ''070707'')"
  "existence_probability_text binary64 ex_channels (ex_record 7 0 True)
     = Inr (''total:99'' @ [CHR 0x0A] @ ''L50'' @ [CHR 0x0A] @ ''070707'')"
  by code_simp+

lemma ex_text_faint:
  "existence_probability_text binary32 ex_channels ex_faint
     = Inr (''total:50'' @ [CHR 0x0A] @ ''070707'')"
  by code_simp

lemma ex_claimed_associated:
  "claimed_label_text ex_channels (ex_record 7 0 True)
     = ''total:100'' @ [CHR 0x0A] @ ''L50'' @ [CHR 0x0A] @ ''070707''"
  by code_simp

lemma ex_claimed_faint:
  "claimed_label_text ex_channels ex_faint
     = ''total:50'' @ [CHR 0x0A] @ [CHR 0x0A] @ ''070707''"
  by code_simp

lemma ex_draw_group_returns:
  assumes "\<forall>od \<in> set g. is_associated od \<longrightarrow> 0 \<le> channel_id od \<and> channel_id od < 2"
    and "2 \<le> length (existence_vector (hd g))"
  shows "\<exists>out. draw_group ex_hash binary32 ex_debugger g marker_array = Inr out"
  using assms by (intro draw_group_returns) (simp_all add: ex_channels_def)


lemma ex_hd_faint: "hd [ex_faint] = ex_faint" by simp

text \<open>
  Against claim C2 as stated. A total probability of 255/256 = 0.99609375, whose
  product with 100 is exact in either format, is printed as 99, not as the rounded
  100. With no channel at or above the threshold the code removes the newline
  after the total, where the claimed text keeps it.
\<close>

theorem label_text_counterexample:
  "returns (draw_group ex_hash binary32 ex_debugger [ex_record 7 0 True] [])
   \<and> marker_text (last (butlast (projr (draw_group ex_hash binary32 ex_debugger [ex_record 7 0 True] []))))
       = ''total:99'' @ [CHR 0x0A] @ ''L50'' @ [CHR 0x0A] @ ''070707''
   \<and> claimed_label_text ex_channels (ex_record 7 0 True)
       = ''total:100'' @ [CHR 0x0A] @ ''L50'' @ [CHR 0x0A] @ ''070707''
   \<and> returns (draw_group ex_hash binary32 ex_debugger [ex_faint] [])
   \<and> marker_text (last (butlast (projr (draw_group ex_hash binary32 ex_debugger [ex_faint] []))))
       = ''total:50'' @ [CHR 0x0A] @ ''070707''
   \<and> claimed_label_text ex_channels ex_faint
       = ''total:50'' @ [CHR 0x0A] @ [CHR 0x0A] @ ''070707''"
proof -
  obtain out1 where out1: "draw_group ex_hash binary32 ex_debugger [ex_record 7 0 True] [] = Inr out1"
    using ex_draw_group_returns [of "[ex_record 7 0 True]" "[]"]
    by (auto simp: ex_record_def)
  obtain out2 where out2: "draw_group ex_hash binary32 ex_debugger [ex_faint] [] = Inr out2"
    using ex_draw_group_returns [of "[ex_faint]" "[]"]
    by (auto simp: ex_faint_def ex_record_def)
  have t1: "marker_text (last (butlast out1))
      = ''total:99'' @ [CHR 0x0A] @ ''L50'' @ [CHR 0x0A] @ ''070707''"
    using draw_group_label_text [OF out1] ex_text_associated by simp
  have t2: "marker_text (last (butlast out2)) = ''total:50'' @ [CHR 0x0A] @ ''070707''"
    using draw_group_label_text [OF out2] ex_text_faint by simp
  show ?thesis
    using t1 t2 ex_claimed_associated ex_claimed_faint
    by (simp add: out1 out2 returns_def)
qed

theorem label_text_with_channels_witness:
  "\<exists>out. draw_group ex_hash binary32 ex_debugger ex_group_associated [] = Inr out
     \<and> marker_text (last (butlast out))
         = ''total:99'' @ [CHR 0x0A] @ ''L50'' @ [CHR 0x0A] @ ''070707''"
proof -
  obtain out where out: "draw_group ex_hash binary32 ex_debugger ex_group_associated [] = Inr out"
    using ex_draw_group_returns [of ex_group_associated "[]"]
    by (auto simp: ex_group_associated_def ex_record_def)
  have ne: "ex_group_associated \<noteq> []" by (simp add: ex_group_associated_def)
  have sh: "\<exists>i < length (channels_config ex_debugger).
              101 / 100000 \<le> existence_vector (hd ex_group_associated) ! i"
    by (rule exI [of _ 0]) (simp add: ex_channels_def ex_group_associated_def ex_record_def)
  have ev: "''total:''
       @ to_string (static_cast_int (fp_mul binary32 (total_existence_probability (hd ex_group_associated)) 100))
       @ [CHR 0x0A]
       @ butlast (concat (map (\<lambda>i. short_name (ex_channels ! i)
                                   @ to_string (static_cast_int (fp_mul binary32 (existence_vector (hd ex_group_associated) ! i) 100))
                                   @ '':'')
                   (filter (\<lambda>i. 101 / 100000 \<le> existence_vector (hd ex_group_associated) ! i)
                      [0..<length ex_channels])))
       @ [CHR 0x0A] @ take 6 (uuid_str (hd ex_group_associated))
     = ''total:99'' @ [CHR 0x0A] @ ''L50'' @ [CHR 0x0A] @ ''070707''"
    by code_simp
  show ?thesis
    using label_text_with_channels [OF out ne sh] out ev by simp
qed

theorem label_channel_entries_witness:
  "\<exists>out. draw_group ex_hash binary32 ex_debugger ex_group_associated [] = Inr out
     \<and> existence_vector (hd ex_group_associated) = [1 / 2, 1 / 1024]
     \<and> marker_text (last (butlast out))
         = ''total:99'' @ [CHR 0x0A] @ ''L50'' @ [CHR 0x0A] @ ''070707''"
proof -
  obtain out where out: "draw_group ex_hash binary32 ex_debugger ex_group_associated [] = Inr out"
    using ex_draw_group_returns [of ex_group_associated "[]"]
    by (auto simp: ex_group_associated_def ex_record_def)
  have ev: "existence_vector (hd ex_group_associated) = [1 / 2, 1 / 1024]"
    by (simp add: ex_group_associated_def ex_record_def)
  have "marker_text (last (butlast out))
     = pop_back (''total:''
                 @ to_string (static_cast_int
                      (fp_mul binary32 (total_existence_probability (hd ex_group_associated)) 100))
                 @ [CHR 0x0A]
                 @ concat (map (\<lambda>i. if existence_vector (hd ex_group_associated) ! i < 101 / 100000
                                     then []
                                     else short_name (channels_config ex_debugger ! i)
                                          @ to_string (static_cast_int
                                               (fp_mul binary32
                                                  (existence_vector (hd ex_group_associated) ! i) 100))
                                          @ '':'')
                            [0..<length (channels_config ex_debugger)]))
       @ [CHR 0x0A] @ take 6 (uuid_str (hd ex_group_associated))"
    by (rule label_channel_entries [OF out])
  also have "\<dots> = ''total:99'' @ [CHR 0x0A] @ ''L50'' @ [CHR 0x0A] @ ''070707''"
    by code_simp
  finally show ?thesis using out ev by simp
qed

theorem unassociated_group_is_grey_witness:
  "(\<exists>out. draw_group ex_hash binary32 ex_debugger ex_group_unassociated [] = Inr out
      \<and> marker_color (last (butlast out))
          = \<lparr>color_r = 1 / 2, color_g = 1 / 2, color_b = 1 / 2, color_a = 9 / 10\<rparr>
      \<and> marker_color (last out)
          = \<lparr>color_r = 1 / 2, color_g = 1 / 2, color_b = 1 / 2, color_a = 8 / 10\<rparr>)
   \<and> (\<exists>out. draw_group ex_hash binary32 ex_debugger ex_group_associated [] = Inr out
      \<and> marker_color (last (butlast out))
          = \<lparr>color_r = 1, color_g = 1, color_b = 1, color_a = 1\<rparr>
      \<and> marker_color (last out)
          = \<lparr>color_r = 1, color_g = 1, color_b = 1, color_a = 9 / 10\<rparr>)"
proof -
  obtain out1 where out1: "draw_group ex_hash binary32 ex_debugger ex_group_unassociated [] = Inr out1"
    using ex_draw_group_returns [of ex_group_unassociated "[]"]
    by (auto simp: ex_group_unassociated_def ex_record_def)
  obtain out2 where out2: "draw_group ex_hash binary32 ex_debugger ex_group_associated [] = Inr out2"
    using ex_draw_group_returns [of ex_group_associated "[]"]
    by (auto simp: ex_group_associated_def ex_record_def)
  have n: "\<not> (\<exists>od \<in> set ex_group_unassociated. is_associated od)"
    by (simp add: ex_group_unassociated_def ex_record_def)
  have a: "\<exists>od \<in> set ex_group_associated. is_associated od"
    by (simp add: ex_group_associated_def ex_record_def)
  show ?thesis
    using unassociated_group_is_grey [OF out1] unassociated_group_is_grey [OF out2] n a out1 out2
    by simp
qed

theorem empty_channel_markers_are_deleted_witness:
  "\<exists>out. draw_group ex_hash binary32 ex_debugger ex_group_associated [] = Inr out
     \<and> length out = 6
     \<and> marker_ns (out ! 1) = ''detect_boxes_R''
     \<and> marker_action (out ! 1) = (if marker_points (out ! 1) = [] then DELETE else ADD)
     \<and> marker_ns (out ! 3) = ''association_lines_R''
     \<and> marker_action (out ! 3) = (if marker_points (out ! 3) = [] then DELETE else ADD)"
proof -
  obtain out where out: "draw_group ex_hash binary32 ex_debugger ex_group_associated [] = Inr out"
    using ex_draw_group_returns [of ex_group_associated "[]"]
    by (auto simp: ex_group_associated_def ex_record_def)
  have i: "1 < length (channels_config ex_debugger)" by (simp add: ex_channels_def)
  show ?thesis
    using empty_channel_markers_are_deleted [OF out i] out
    by (simp add: ex_channels_def numeral_3_eq_3)
qed

text \<open>
  Against claim C10 as stated ("only under the precondition"): an unassociated record
  with a channel id outside the configuration violates the precondition, and
  \<open>draw\<close> returns all the same, since only associated records are looked up by
  channel. With the same record associated, \<open>draw\<close> fails.
\<close>

theorem draw_total_counterexample:
  "\<not> draw_precondition ex_channels [ [ex_record 7 5 False] ]
   \<and> returns (draw ex_hash binary32 ex_debugger [ [ex_record 7 5 False] ] [])"
proof -
  obtain out where "draw_group ex_hash binary32 ex_debugger [ex_record 7 5 False] [] = Inr out"
    using ex_draw_group_returns [of "[ex_record 7 5 False]" "[]"]
    by (auto simp: ex_record_def)
  then have "returns (draw ex_hash binary32 ex_debugger [ [ex_record 7 5 False] ] [])"
    by (simp add: draw_def returns_def)
  moreover have "\<not> draw_precondition ex_channels [ [ex_record 7 5 False] ]"
    by (simp add: draw_precondition_def ex_channels_def ex_record_def)
  ultimately show ?thesis by simp
qed

lemma draw_out_of_range_example:
  "draw ex_hash binary32 ex_debugger [ [ex_record 7 5 True] ] [] = Inl out_of_range"
proof -
  have "length ex_channels \<le> length (existence_vector (ex_record 7 5 True))"
    by (simp add: ex_channels_def ex_record_def)
  note s = existence_probability_text_in_range [OF this]
  have "draw_object_data (ex_record 7 5 True)
          (group_markers_init ex_hash ex_debugger (ex_record 7 5 True)) = Inl out_of_range"
    by (rule draw_object_data_out_of_range)
       (simp_all add: ex_record_def group_markers_init_lengths ex_channels_def)
  then show ?thesis
    by (simp add: draw_def draw_group_eq s)
qed

theorem draw_total_under_precondition_witness:
  "draw_precondition (channels_config ex_debugger) [ex_group_unassociated, ex_group_associated]
   \<and> returns (draw ex_hash binary32 ex_debugger [ex_group_unassociated, ex_group_associated] [])"
proof -
  have p: "draw_precondition (channels_config ex_debugger)
             [ex_group_unassociated, ex_group_associated]"
    by (simp add: draw_precondition_def ex_group_unassociated_def ex_group_associated_def
          ex_record_def ex_channels_def)
  show ?thesis using p draw_total_under_precondition [OF p] by simp
qed




text \<open>
  The scenario of the specification: two channels, one tracker associated on the
  first channel only. Name, action and number of points of the six markers, and
  their colours.
\<close>

lemma ex_scenario:
  "map_sum id (map (\<lambda>m. (marker_ns m, marker_action m, length (marker_points m))))
     (draw ex_hash binary32 ex_debugger [ [ex_record 7 0 True] ] [])
   = Inr [(''detect_boxes_L'', ADD, 1), (''detect_boxes_R'', DELETE, 0),
          (''association_lines_L'', ADD, 2), (''association_lines_R'', DELETE, 0),
          (''existence_probability'', ADD, 0), (''track_boxes'', ADD, 1)]"
  by code_simp

lemma ex_scenario_colors:
  "map_sum id (map marker_color)
     (draw ex_hash binary32 ex_debugger [ [ex_record 7 0 True] ] [])
   = Inr [\<lparr>color_r = 0, color_g = 0, color_b = 1, color_a = 9 / 10\<rparr>,
          \<lparr>color_r = 0, color_g = 1, color_b = 0, color_a = 9 / 10\<rparr>,
          \<lparr>color_r = 0, color_g = 0, color_b = 1, color_a = 9 / 10\<rparr>,
          \<lparr>color_r = 0, color_g = 1, color_b = 0, color_a = 9 / 10\<rparr>,
          \<lparr>color_r = 1, color_g = 1, color_b = 1, color_a = 1\<rparr>,
          \<lparr>color_r = 1, color_g = 1, color_b = 1, color_a = 9 / 10\<rparr>]"
  by code_simp

end
